theory Spec2Isabelle
  imports
    Main
    "HOL-Library.Char_ord"
    "HOL-Library.List_Lexorder"
    "HOL-Library.Product_Lexorder"
begin

section \<open>The HYBB utility app (src/app.py) as HOL functions\<close>

text \<open>
  The application is one Streamlit script, \<^verbatim>\<open>main()\<close>, over two external stores: a
  worksheet (read with \<^verbatim>\<open>get_all_values\<close>, written with \<^verbatim>\<open>append_row\<close> and
  \<^verbatim>\<open>update_cell\<close>) and a shared drive that receives the photos. Each menu branch of
  \<^verbatim>\<open>main()\<close> is one function below; the stores are explicit state; the widget values
  are arguments; what the script writes on the page is the result.

  Conventions of the model.
  \<^item> A Python \<^verbatim>\<open>str\<close> is a \<^typ>\<open>string\<close>; a \<^typ>\<open>char\<close> stands for the code point of
    the same number, so the model covers text in the range U+0000 to U+00FF.
  \<^item> The texts of notices are kept without their leading pictograph.
  \<^item> Library calls whose full behaviour is outside the repository (the timestamp
    parsers of pandas and of \<^verbatim>\<open>datetime\<close>, the regular expression engine on patterns
    with special characters) are parameters of the functions that call them.
  \<^item> A call of an external service that raises ends the script run before any later
    write; the functions below describe the runs in which the calls return.
\<close>

subsection \<open>Strings\<close>

text \<open>\<^verbatim>\<open>str.isspace\<close> on one character, for the code points below 256.\<close>

definition isspace :: "char \<Rightarrow> bool" where
  "isspace c = ((of_char c :: nat) \<in> {9, 10, 11, 12, 13, 28, 29, 30, 31, 32, 133, 160})"

text \<open>\<^verbatim>\<open>str.strip()\<close>: leading and trailing whitespace removed.\<close>

definition strip :: "string \<Rightarrow> string" where
  "strip s = rev (dropWhile isspace (rev (dropWhile isspace s)))"

text \<open>\<^verbatim>\<open>str.lower\<close> on one character, for the code points below 256: the letters
  A to Z and the accented capitals U+00C0 to U+00DE (the multiplication sign U+00D7 is
  not a letter) move up by 32.\<close>

definition lower_char :: "char \<Rightarrow> char" where
  "lower_char c =
     (let n = (of_char c :: nat)
      in if (65 \<le> n \<and> n \<le> 90) \<or> (192 \<le> n \<and> n \<le> 222 \<and> n \<noteq> 215)
         then char_of (n + 32) else c)"

text \<open>Decimal digits of a natural number, and zero padding to a width
  (\<^verbatim>\<open>%Y\<close>, \<^verbatim>\<open>%m\<close>, \<^verbatim>\<open>%d\<close>, \<^verbatim>\<open>%H\<close>, \<^verbatim>\<open>%M\<close>, \<^verbatim>\<open>%S\<close>, \<^verbatim>\<open>%I\<close> of \<^verbatim>\<open>strftime\<close>).\<close>

fun show_nat :: "nat \<Rightarrow> string" where
  "show_nat n =
     (if n < 10 then [char_of (48 + n)]
      else show_nat (n div 10) @ [char_of (48 + n mod 10)])"

declare show_nat.simps [simp del]

definition zpad :: "nat \<Rightarrow> nat \<Rightarrow> string" where
  "zpad w n = replicate (w - length (show_nat n)) (CHR ''0'') @ show_nat n"

subsection \<open>Dates and times\<close>

datatype month = Jan | Feb | Mar | Apr | May | Jun | Jul | Aug | Sep | Oct | Nov | Dec

record datetime =
  year :: nat
  month :: month
  day :: nat
  hour :: nat
  minute :: nat
  second :: nat

fun month_number :: "month \<Rightarrow> nat" where
  "month_number Jan = 1" | "month_number Feb = 2" | "month_number Mar = 3"
| "month_number Apr = 4" | "month_number May = 5" | "month_number Jun = 6"
| "month_number Jul = 7" | "month_number Aug = 8" | "month_number Sep = 9"
| "month_number Oct = 10" | "month_number Nov = 11" | "month_number Dec = 12"

text \<open>\<^verbatim>\<open>%b\<close>, in the C locale.\<close>

fun month_abbr :: "month \<Rightarrow> string" where
  "month_abbr Jan = ''Jan''" | "month_abbr Feb = ''Feb''" | "month_abbr Mar = ''Mar''"
| "month_abbr Apr = ''Apr''" | "month_abbr May = ''May''" | "month_abbr Jun = ''Jun''"
| "month_abbr Jul = ''Jul''" | "month_abbr Aug = ''Aug''" | "month_abbr Sep = ''Sep''"
| "month_abbr Oct = ''Oct''" | "month_abbr Nov = ''Nov''" | "month_abbr Dec = ''Dec''"

text \<open>\<^verbatim>\<open>strftime('%Y%m%d%H%M%S')\<close>, the stamp in the name of an uploaded image
  (line 33).\<close>

definition strftime_compact :: "datetime \<Rightarrow> string" where
  "strftime_compact t =
     zpad 4 (year t) @ zpad 2 (month_number (month t)) @ zpad 2 (day t) @
     zpad 2 (hour t) @ zpad 2 (minute t) @ zpad 2 (second t)"

text \<open>\<^verbatim>\<open>strftime("%Y-%m-%d %H:%M:%S")\<close>, the timestamp of a new row (line 80).\<close>

definition strftime_row :: "datetime \<Rightarrow> string" where
  "strftime_row t =
     zpad 4 (year t) @ ''-'' @ zpad 2 (month_number (month t)) @ ''-'' @ zpad 2 (day t) @
     '' '' @ zpad 2 (hour t) @ '':'' @ zpad 2 (minute t) @ '':'' @ zpad 2 (second t)"

text \<open>\<^verbatim>\<open>strftime("%b %Y")\<close>, the month label of the purchase summary (line 99).\<close>

definition strftime_month :: "datetime \<Rightarrow> string" where
  "strftime_month t = month_abbr (month t) @ '' '' @ zpad 4 (year t)"

text \<open>\<^verbatim>\<open>strftime("%d %b %Y, %I:%M %p")\<close>, the request time of an admin card
  (line 167): \<^verbatim>\<open>%I\<close> is the hour on the 12-hour clock, \<^verbatim>\<open>%p\<close> is AM or PM.\<close>

definition hour12 :: "nat \<Rightarrow> nat" where
  "hour12 h = (if h mod 12 = 0 then 12 else h mod 12)"

definition strftime_card :: "datetime \<Rightarrow> string" where
  "strftime_card t =
     zpad 2 (day t) @ '' '' @ month_abbr (month t) @ '' '' @ zpad 4 (year t) @ '', '' @
     zpad 2 (hour12 (hour t)) @ '':'' @ zpad 2 (minute t) @ '' '' @
     (if hour t < 12 then ''AM'' else ''PM'')"

text \<open>\<^verbatim>\<open>.dt.date\<close>: the calendar date of a timestamp, as (year, month, day).\<close>

type_synonym date = "nat \<times> month \<times> nat"

definition date_of :: "datetime \<Rightarrow> date" where
  "date_of t = (year t, month t, day t)"

subsection \<open>The timestamps that the script writes\<close>

text \<open>
  The reading of the one form of timestamp that the script writes itself
  (\<^verbatim>\<open>YYYY-MM-DD HH:MM:SS\<close>, every field zero padded, a date of the calendar), \<open>None\<close>
  for a string that is not of that form. The examples use it in the place of the
  parameter \<open>strptime\<close> of the Admin Dashboard: \<^verbatim>\<open>datetime.strptime\<close> reads such a string
  as this function does.
\<close>

definition is_digit :: "char \<Rightarrow> bool" where
  "is_digit c = (48 \<le> (of_char c :: nat) \<and> (of_char c :: nat) \<le> 57)"

definition read_nat :: "string \<Rightarrow> nat" where
  "read_nat s = foldl (\<lambda>a c. 10 * a + ((of_char c :: nat) - 48)) 0 s"

definition month_of_number :: "nat \<Rightarrow> month option" where
  "month_of_number n =
     (if 1 \<le> n \<and> n \<le> 12
      then Some ([Jan, Feb, Mar, Apr, May, Jun, Jul, Aug, Sep, Oct, Nov, Dec] ! (n - 1))
      else None)"

definition days_in_month :: "nat \<Rightarrow> month \<Rightarrow> nat" where
  "days_in_month y m =
     (if m = Feb then (if y mod 4 = 0 \<and> (y mod 100 \<noteq> 0 \<or> y mod 400 = 0) then 29 else 28)
      else if m \<in> {Apr, Jun, Sep, Nov} then 30 else 31)"

definition parse_written :: "string \<Rightarrow> datetime option" where
  "parse_written s =
     (if length s = 19
         \<and> s ! 4 = CHR ''-'' \<and> s ! 7 = CHR ''-'' \<and> s ! 10 = CHR '' ''
         \<and> s ! 13 = CHR '':'' \<and> s ! 16 = CHR '':''
         \<and> list_all (\<lambda>j. is_digit (s ! j)) [0, 1, 2, 3, 5, 6, 8, 9, 11, 12, 14, 15, 17, 18]
      then
        let y = read_nat (take 4 s); d = read_nat (take 2 (drop 8 s));
            h = read_nat (take 2 (drop 11 s)); mi = read_nat (take 2 (drop 14 s));
            se = read_nat (take 2 (drop 17 s))
        in (case month_of_number (read_nat (take 2 (drop 5 s))) of
              None \<Rightarrow> None
            | Some m \<Rightarrow>
                if 1 \<le> y \<and> 1 \<le> d \<and> d \<le> days_in_month y m \<and> h < 24 \<and> mi < 60 \<and> se < 60
                then Some \<lparr>year = y, month = m, day = d, hour = h, minute = mi, second = se\<rparr>
                else None)
      else None)"

subsection \<open>The two stores\<close>

text \<open>
  The worksheet is the list of its rows, each the list of its cell values; row 1 is the
  header. Rows and columns are numbered from 1 by the store. A cell outside the stored
  values is an empty cell of the grid: \<open>cell_at\<close> reads it as the empty string, and
  \<open>update_cell\<close> on it extends the stored values with empty cells.
\<close>

type_synonym row = "string list"
type_synonym worksheet = "row list"

definition append_row :: "row \<Rightarrow> worksheet \<Rightarrow> worksheet" where
  "append_row values sh = sh @ [values]"

definition pad_to :: "nat \<Rightarrow> 'a \<Rightarrow> 'a list \<Rightarrow> 'a list" where
  "pad_to n d xs = xs @ replicate (n - length xs) d"

text \<open>\<^verbatim>\<open>get_all_values\<close>: the rows, each filled with empty strings to the width of
  the widest row.\<close>

definition get_all_values :: "worksheet \<Rightarrow> row list" where
  "get_all_values sh = map (pad_to (fold max (map length sh) 0) []) sh"

definition update_cell :: "nat \<Rightarrow> nat \<Rightarrow> string \<Rightarrow> worksheet \<Rightarrow> worksheet" where
  "update_cell r c v sh =
     (let sh1 = pad_to r [] sh;
          old = sh1 ! (r - 1)
      in sh1[r - 1 := (pad_to c [] old)[c - 1 := v]])"

definition cell_at :: "worksheet \<Rightarrow> nat \<Rightarrow> nat \<Rightarrow> string" where
  "cell_at sh r c =
     (if 1 \<le> r \<and> r \<le> length sh \<and> 1 \<le> c \<and> c \<le> length (sh ! (r - 1))
      then sh ! (r - 1) ! (c - 1) else [])"

record drive_file =
  file_name :: string
  file_parents :: "string list"
  file_mimetype :: string
  file_body :: string

record world =
  sheet :: worksheet
  drive :: "drive_file list"

definition SHARED_DRIVE_ID :: string where
  "SHARED_DRIVE_ID = ''0AO88IQGAqsTKUk9PVA''"

text \<open>
  \<^verbatim>\<open>save_image_to_drive\<close> (lines 30 to 44). The clock reading \<open>now\<close> and the answer of
  the drive, \<open>file_id\<close> (\<^verbatim>\<open>file.get("id")\<close>, which is \<^verbatim>\<open>None\<close> when the answer has no id),
  are arguments. The result is the URL and the drive with the new file.
\<close>

definition fstring_of :: "string option \<Rightarrow> string" where
  "fstring_of v = (case v of None \<Rightarrow> ''None'' | Some s \<Rightarrow> s)"

definition save_image_to_drive ::
  "datetime \<Rightarrow> string option \<Rightarrow> string \<Rightarrow> drive_file list \<Rightarrow> string \<times> drive_file list" where
  "save_image_to_drive now file_id image_data drv =
     (''https://drive.google.com/uc?export=view&id='' @ fstring_of file_id,
      drv @ [\<lparr>file_name = ''image_'' @ strftime_compact now @ ''.jpg'',
              file_parents = [SHARED_DRIVE_ID],
              file_mimetype = ''image/jpeg'',
              file_body = image_data\<rparr>])"

subsection \<open>What the page shows\<close>

datatype notice = Info string | Warning string | Success string

datatype 'a page = Notice notice | Content 'a

subsection \<open>Submit Request (lines 67 to 84)\<close>

text \<open>
  The handler of the button "Submit Request". \<open>kitchen\<close> is the value of the select box,
  \<open>emp_name\<close> and \<open>emp_id\<close> the text inputs, \<open>picture\<close> the camera input (\<open>None\<close> when no
  photo was taken, otherwise the bytes of the photo). \<open>t_upload\<close> and \<open>t_row\<close> are the
  two readings of the clock, \<open>file_id\<close> the answer of the drive.
\<close>

definition submit_request ::
  "datetime \<Rightarrow> string option \<Rightarrow> datetime \<Rightarrow>
   string \<Rightarrow> string \<Rightarrow> string \<Rightarrow> string option \<Rightarrow> world \<Rightarrow> world \<times> notice" where
  "submit_request t_upload file_id t_row kitchen emp_name emp_id picture w =
     (case picture of
        None \<Rightarrow> (w, Warning ''Please fill all fields and take a photo.'')
      | Some image_data \<Rightarrow>
          if kitchen = ''--Select--'' \<or> emp_name = [] \<or> emp_id = []
          then (w, Warning ''Please fill all fields and take a photo.'')
          else
            let (img_url, drv) = save_image_to_drive t_upload file_id image_data (drive w)
            in (\<lparr>sheet = append_row
                    [strftime_row t_row, kitchen, emp_name, emp_id, img_url,
                     ''Pending'', [], []] (sheet w),
                  drive = drv\<rparr>,
                Success ''Request submitted successfully!''))"

subsection \<open>Errors\<close>

text \<open>The exceptions that end a run of the script. \<open>SecretsNotFound\<close> is the
  error of Streamlit when a secret is read and no secrets file exists. \<open>Unmodelled\<close>
  marks an input on which a library goes on with a value this model has no type for,
  or on which this model does not say what the library does (a frame where a column
  was asked for, a group key that is a timestamp, rows filled with missing values, a
  column of timestamps outside the forms that \<open>pandas_to_datetime\<close> covers).\<close>

datatype error =
    KeyError string
  | ValueError
  | AttributeError
  | ReError
  | SecretsNotFound
  | Unmodelled

text \<open>A loop whose body may raise: the results in order, or the first error.\<close>

fun map_result :: "('a \<Rightarrow> error + 'b) \<Rightarrow> 'a list \<Rightarrow> error + 'b list" where
  "map_result f [] = Inr []"
| "map_result f (x # xs) =
     (case f x of
        Inl e \<Rightarrow> Inl e
      | Inr y \<Rightarrow> (case map_result f xs of Inl e \<Rightarrow> Inl e | Inr ys \<Rightarrow> Inr (y # ys)))"

subsection \<open>The access gate (lines 46 to 50 and 121 to 128)\<close>

text \<open>
  \<^verbatim>\<open>st.secrets\<close>: \<open>None\<close> when no secrets file exists, otherwise the entries of the
  file. \<^verbatim>\<open>st.secrets.get(key, default)\<close> gives the default for a key that the file does
  not have; with no file at all it raises, since it gives the default on a
  \<^verbatim>\<open>KeyError\<close> only.
\<close>

type_synonym secrets = "(string \<rightharpoonup> string) option"

definition secrets_get :: "secrets \<Rightarrow> string \<Rightarrow> string \<Rightarrow> error + string" where
  "secrets_get secrets key dflt =
     (case secrets of
        None \<Rightarrow> Inl SecretsNotFound
      | Some file \<Rightarrow> Inr (case file key of None \<Rightarrow> dflt | Some v \<Rightarrow> v))"

text \<open>\<^verbatim>\<open>is_admin\<close>: \<open>password\<close> and \<open>admin_name\<close> are the two text inputs of the
  sidebar.\<close>

definition is_admin :: "secrets \<Rightarrow> string \<Rightarrow> string \<Rightarrow> error + bool \<times> string" where
  "is_admin secrets password admin_name =
     (case secrets_get secrets ''admin_password'' ''admin123'' of
        Inl x \<Rightarrow> Inl x
      | Inr secret \<Rightarrow> Inr (password = secret, admin_name))"

text \<open>The two early returns of the Admin Dashboard branch: \<open>Some\<close> warning when the
  branch stops there, \<open>None\<close> when it goes on to the listing.\<close>

definition admin_gate :: "secrets \<Rightarrow> string \<Rightarrow> string \<Rightarrow> error + notice option" where
  "admin_gate secrets password name_input =
     (case is_admin secrets password name_input of
        Inl x \<Rightarrow> Inl x
      | Inr (is_admin_user, admin_name) \<Rightarrow>
          Inr (if \<not> is_admin_user then Some (Warning ''Please enter correct admin password.'')
               else if strip admin_name = []
               then Some (Warning
                 ''Please enter your name/email in the sidebar to access Admin Dashboard.'')
               else None))"

subsection \<open>Data frames\<close>

text \<open>
  A pandas frame, as far as the script uses one: the column names, and the rows in
  order, each with its index label. \<^verbatim>\<open>pd.DataFrame(data[1:], columns=data[0])\<close> labels
  the rows 0, 1, 2, ...; selecting rows keeps the labels.
\<close>

record 'c frame =
  columns :: "string list"
  entries :: "(nat \<times> 'c list) list"

definition DataFrame :: "'c list list \<Rightarrow> string list \<Rightarrow> error + 'c frame" where
  "DataFrame data cols =
     (if list_all (\<lambda>r. length r = length cols) data
      then Inr \<lparr>columns = cols, entries = zip [0..<length data] data\<rparr>
      else if list_all (\<lambda>r. length r \<le> length cols) data
              \<and> list_ex (\<lambda>r. length r = length cols) data
      then Inl Unmodelled
      else Inl ValueError)"

text \<open>The positions of a column name, and the position when there is exactly one.\<close>

definition col_positions :: "string list \<Rightarrow> string \<Rightarrow> nat list" where
  "col_positions cols name = filter (\<lambda>j. cols ! j = name) [0..<length cols]"

definition column_index :: "string list \<Rightarrow> string \<Rightarrow> error + nat" where
  "column_index cols name =
     (case col_positions cols name of
        [] \<Rightarrow> Inl (KeyError name)
      | [j] \<Rightarrow> Inr j
      | _ \<Rightarrow> Inl Unmodelled)"

text \<open>\<^verbatim>\<open>df[name]\<close>: the values of a column, in row order.\<close>

definition get_column :: "'c frame \<Rightarrow> string \<Rightarrow> error + 'c list" where
  "get_column df name =
     (case column_index (columns df) name of
        Inl e \<Rightarrow> Inl e
      | Inr j \<Rightarrow> Inr (map (\<lambda>(i, r). r ! j) (entries df)))"

text \<open>\<^verbatim>\<open>row[name]\<close> for a row of \<^verbatim>\<open>iterrows()\<close>.\<close>

definition series_get :: "string list \<Rightarrow> 'c list \<Rightarrow> string \<Rightarrow> error + 'c" where
  "series_get cols r name =
     (case column_index cols name of Inl e \<Rightarrow> Inl e | Inr j \<Rightarrow> Inr (r ! j))"

text \<open>\<^verbatim>\<open>df[mask]\<close>: the rows at which the mask holds.\<close>

definition select_rows :: "'c frame \<Rightarrow> bool list \<Rightarrow> 'c frame" where
  "select_rows df keep = df\<lparr>entries := map fst (filter snd (zip (entries df) keep))\<rparr>"

text \<open>\<^verbatim>\<open>df[df[name] == v]\<close>.\<close>

definition where_eq :: "'c frame \<Rightarrow> string \<Rightarrow> 'c \<Rightarrow> error + 'c frame" where
  "where_eq df name v =
     (case get_column df name of
        Inl e \<Rightarrow> Inl e
      | Inr col \<Rightarrow> Inr (select_rows df (map (\<lambda>x. x = v) col)))"

text \<open>\<^verbatim>\<open>df[name] = values\<close>: every column of that name is replaced; a new name adds a
  last column.\<close>

definition set_column :: "'c frame \<Rightarrow> string \<Rightarrow> 'c list \<Rightarrow> 'c frame" where
  "set_column df name vals =
     (if name \<in> set (columns df)
      then df\<lparr>entries :=
             map (\<lambda>(e, v). (fst e, map (\<lambda>j. if columns df ! j = name then v else snd e ! j)
                                        [0..<length (snd e)]))
                 (zip (entries df) vals)\<rparr>
      else df\<lparr>columns := columns df @ [name],
              entries := map (\<lambda>(e, v). (fst e, snd e @ [v])) (zip (entries df) vals)\<rparr>)"

text \<open>A frame whose column names differ and whose rows have one cell for each
  column, as every frame of the script on a worksheet with the expected header.\<close>

definition wf_frame :: "'c frame \<Rightarrow> bool" where
  "wf_frame df =
     (distinct (columns df) \<and> (\<forall>e \<in> set (entries df). length (snd e) = length (columns df)))"

subsection \<open>Searching text\<close>

text \<open>
  \<^verbatim>\<open>Series.str.contains(pat, case=False, na=False)\<close> compiles \<open>pat\<close> as a regular
  expression with \<^verbatim>\<open>re.IGNORECASE\<close> and keeps the values in which it is found. A
  pattern with none of the special characters of \<^verbatim>\<open>re\<close> stands for its own
  characters: it is found where each of its characters agrees, up to case, with the
  text. For any other pattern the engine is the parameter \<open>re\<close>: it gives the search
  predicate, or the error of a pattern that does not compile.
\<close>

definition re_special :: "char list" where
  "re_special = ''.^$*+?{}[]|()'' @ [CHR 0x5C]"

fun match_here_ci :: "string \<Rightarrow> string \<Rightarrow> bool" where
  "match_here_ci [] x = True"
| "match_here_ci (p # ps) [] = False"
| "match_here_ci (p # ps) (c # cs) = (lower_char p = lower_char c \<and> match_here_ci ps cs)"

fun search_ci :: "string \<Rightarrow> string \<Rightarrow> bool" where
  "search_ci pat [] = match_here_ci pat []"
| "search_ci pat (c # cs) = (match_here_ci pat (c # cs) \<or> search_ci pat cs)"

type_synonym regex_engine = "string \<Rightarrow> error + (string \<Rightarrow> bool)"

definition re_compile_ignorecase :: "regex_engine \<Rightarrow> string \<Rightarrow> error + (string \<Rightarrow> bool)" where
  "re_compile_ignorecase re pat =
     (if list_all (\<lambda>c. c \<notin> set re_special) pat then Inr (search_ci pat) else re pat)"

definition str_contains :: "regex_engine \<Rightarrow> string list \<Rightarrow> string \<Rightarrow> error + bool list" where
  "str_contains re col pat =
     (case re_compile_ignorecase re pat of
        Inl e \<Rightarrow> Inl e
      | Inr found \<Rightarrow> Inr (map found col))"

subsection \<open>Admin Dashboard (lines 121 to 207)\<close>

datatype admin_menu = Pending_Requests | All_Requests

text \<open>One request as the loop of lines 163 to 207 shows it: \<open>card_index\<close> is the label
  \<open>i\<close> of \<^verbatim>\<open>iterrows()\<close>, which the keys of the three buttons and the cell updates
  use; \<open>card_row\<close> is the row itself.\<close>

record card =
  card_index :: nat
  card_row :: "string list"
  request_time_str :: string
  card_kitchen :: string
  card_employee :: string
  card_employee_id :: string
  card_status :: string
  card_photo_url :: string
  card_comment :: string

text \<open>Lines 165 to 169: \<open>strptime\<close> is
  \<^verbatim>\<open>datetime.strptime(_, "%Y-%m-%d %H:%M:%S")\<close>, \<open>None\<close> when it raises.\<close>

definition request_time :: "(string \<Rightarrow> datetime option) \<Rightarrow> string \<Rightarrow> string" where
  "request_time strptime ts =
     (case strptime ts of Some t \<Rightarrow> strftime_card t | None \<Rightarrow> ts)"

definition make_card ::
  "(string \<Rightarrow> datetime option) \<Rightarrow> string list \<Rightarrow> nat \<times> string list \<Rightarrow> error + card" where
  "make_card strptime cols e =
     (case e of (i, r) \<Rightarrow>
      case series_get cols r ''Timestamp'' of Inl x \<Rightarrow> Inl x | Inr ts \<Rightarrow>
      case series_get cols r ''Kitchen'' of Inl x \<Rightarrow> Inl x | Inr k \<Rightarrow>
      case series_get cols r ''Employee Name'' of Inl x \<Rightarrow> Inl x | Inr n \<Rightarrow>
      case series_get cols r ''Employee ID'' of Inl x \<Rightarrow> Inl x | Inr eid \<Rightarrow>
      case series_get cols r ''Status'' of Inl x \<Rightarrow> Inl x | Inr st \<Rightarrow>
      case series_get cols r ''Photo URL'' of Inl x \<Rightarrow> Inl x | Inr url \<Rightarrow>
      case series_get cols r ''Comments'' of Inl x \<Rightarrow> Inl x | Inr cm \<Rightarrow>
        Inr \<lparr>card_index = i, card_row = r, request_time_str = request_time strptime ts,
             card_kitchen = k, card_employee = n, card_employee_id = eid,
             card_status = st, card_photo_url = url, card_comment = cm\<rparr>)"

text \<open>Lines 153 to 157: the search over the two employee columns.\<close>

definition search_rows :: "regex_engine \<Rightarrow> string frame \<Rightarrow> string \<Rightarrow> error + string frame" where
  "search_rows re df search_text =
     (case get_column df ''Employee Name'' of Inl x \<Rightarrow> Inl x | Inr names \<Rightarrow>
      case str_contains re names search_text of Inl x \<Rightarrow> Inl x | Inr m1 \<Rightarrow>
      case get_column df ''Employee ID'' of Inl x \<Rightarrow> Inl x | Inr ids \<Rightarrow>
      case str_contains re ids search_text of Inl x \<Rightarrow> Inl x | Inr m2 \<Rightarrow>
        Inr (select_rows df (map (\<lambda>(a, b). a \<or> b) (zip m1 m2))))"

text \<open>Lines 130 to 207, after the gate: \<open>data\<close> is the result of
  \<^verbatim>\<open>sheet.get_all_values()\<close>, the other arguments are the widget values. The two
  columns read for the options of the select boxes (lines 145 and 146) are read here
  too, since a missing column raises there.\<close>

definition admin_panel ::
  "regex_engine \<Rightarrow> (string \<Rightarrow> datetime option) \<Rightarrow> admin_menu \<Rightarrow> string \<Rightarrow> string \<Rightarrow> string \<Rightarrow>
   row list \<Rightarrow> error + card list page" where
  "admin_panel re strptime menu kitchen_filter status_filter search_text data =
     (if length data < 2 then Inr (Notice (Info ''No requests found.''))
      else
      case DataFrame (tl data) (hd data) of Inl x \<Rightarrow> Inl x | Inr df \<Rightarrow>
      case (case menu of
              Pending_Requests \<Rightarrow> where_eq df ''Status'' ''Pending''
            | All_Requests \<Rightarrow> Inr df) of Inl x \<Rightarrow> Inl x | Inr f0 \<Rightarrow>
      case get_column f0 ''Kitchen'' of Inl x \<Rightarrow> Inl x | Inr kitchen_options \<Rightarrow>
      case get_column f0 ''Status'' of Inl x \<Rightarrow> Inl x | Inr status_options \<Rightarrow>
      case (if kitchen_filter \<noteq> ''All'' then where_eq f0 ''Kitchen'' kitchen_filter
            else Inr f0) of Inl x \<Rightarrow> Inl x | Inr f1 \<Rightarrow>
      case (if status_filter \<noteq> ''All'' then where_eq f1 ''Status'' status_filter
            else Inr f1) of Inl x \<Rightarrow> Inl x | Inr f2 \<Rightarrow>
      case (if strip search_text \<noteq> [] then search_rows re f2 search_text
            else Inr f2) of Inl x \<Rightarrow> Inl x | Inr f3 \<Rightarrow>
        if entries f3 = [] then Inr (Notice (Info ''No matching requests found.''))
        else
          case map_result (make_card strptime (columns f3)) (entries f3) of
            Inl x \<Rightarrow> Inl x
          | Inr cards \<Rightarrow> Inr (Content cards))"

text \<open>The Admin Dashboard branch: the gate, then the listing.\<close>

definition admin_dashboard ::
  "regex_engine \<Rightarrow> (string \<Rightarrow> datetime option) \<Rightarrow> secrets \<Rightarrow> string \<Rightarrow> string \<Rightarrow>
   admin_menu \<Rightarrow> string \<Rightarrow> string \<Rightarrow> string \<Rightarrow> worksheet \<Rightarrow> error + card list page" where
  "admin_dashboard re strptime secrets password name_input
       menu kitchen_filter status_filter search_text sh =
     (case admin_gate secrets password name_input of
        Inl x \<Rightarrow> Inl x
      | Inr (Some w) \<Rightarrow> Inr (Notice w)
      | Inr None \<Rightarrow>
          admin_panel re strptime menu kitchen_filter status_filter search_text
            (get_all_values sh))"

text \<open>The three buttons of the card with label \<open>i\<close> (lines 192 to 207): the new
  worksheet and the notice.\<close>

datatype action = Approve | Reject | Save_Comment string

definition admin_action :: "string \<Rightarrow> nat \<Rightarrow> action \<Rightarrow> worksheet \<Rightarrow> worksheet \<times> notice" where
  "admin_action admin_name i a sh =
     (case a of
        Approve \<Rightarrow>
          (update_cell (i + 2) 7 admin_name (update_cell (i + 2) 6 ''Approved'' sh),
           Success (''Request '' @ show_nat (i + 1) @ '' Approved''))
      | Reject \<Rightarrow>
          (update_cell (i + 2) 7 admin_name (update_cell (i + 2) 6 ''Rejected'' sh),
           Success (''Request '' @ show_nat (i + 1) @ '' Rejected''))
      | Save_Comment comment \<Rightarrow>
          (update_cell (i + 2) 8 comment sh, Success ''Comment saved.''))"

subsection \<open>Dashboard (lines 86 to 119)\<close>

text \<open>
  The cells of the frame of the Dashboard: the text of the worksheet, a timestamp, or
  the missing value (\<^verbatim>\<open>NaT\<close> in a column of timestamps, \<^verbatim>\<open>NaN\<close> in a column of text).
\<close>

datatype cell = is_Str: Str string | is_Time: Time datetime | Null

text \<open>
  \<^verbatim>\<open>pd.to_datetime(column, errors="coerce")\<close> on the column of the texts of the
  worksheet. What pandas reads from a column depends on its version and on the whole
  column (it may take one format from the first text and read every text with it), and
  the call can raise in spite of \<^verbatim>\<open>errors="coerce"\<close> (on timestamps with different UTC
  offsets, for one). So the library function is the parameter \<open>parse\<close>: from the texts
  of the column, the cells of the new column (a timestamp, or the missing value for a
  text that pandas does not read), or the error that the call raises. The new column has
  one cell for each text.
\<close>

type_synonym datetime_parser = "string list \<Rightarrow> error + cell list"

definition cell_text :: "cell \<Rightarrow> string option" where
  "cell_text c = (case c of Str s \<Rightarrow> Some s | _ \<Rightarrow> None)"

definition to_datetime :: "datetime_parser \<Rightarrow> cell list \<Rightarrow> error + cell list" where
  "to_datetime parse col =
     (if list_ex (\<lambda>c. \<not> is_Str c) col then Inl Unmodelled
      else
        case parse (List.map_filter cell_text col) of
          Inl x \<Rightarrow> Inl x
        | Inr new \<Rightarrow> if length new = length col then Inr new else Inl Unmodelled)"

text \<open>The accessor \<^verbatim>\<open>.dt\<close>: the timestamps of a column, \<open>None\<close> for a missing value;
  a column of text has no such accessor.\<close>

definition cell_time :: "cell \<Rightarrow> datetime option" where
  "cell_time c = (case c of Time t \<Rightarrow> Some t | _ \<Rightarrow> None)"

definition dt :: "cell list \<Rightarrow> error + datetime option list" where
  "dt col = (if list_ex is_Str col then Inl AttributeError else Inr (map cell_time col))"

text \<open>\<^verbatim>\<open>.dt.strftime("%b %Y")\<close> (line 99).\<close>

definition dt_strftime_month :: "datetime option list \<Rightarrow> cell list" where
  "dt_strftime_month stamps =
     map (\<lambda>t. case t of Some t \<Rightarrow> Str (strftime_month t) | None \<Rightarrow> Null) stamps"

text \<open>\<^verbatim>\<open>df[df[name].dt.date == d]\<close> (line 117).\<close>

definition where_date :: "cell frame \<Rightarrow> string \<Rightarrow> date \<Rightarrow> error + cell frame" where
  "where_date df name d =
     (case get_column df name of Inl x \<Rightarrow> Inl x | Inr col \<Rightarrow>
      case dt col of Inl x \<Rightarrow> Inl x | Inr stamps \<Rightarrow>
        Inr (select_rows df (map (\<lambda>t. map_option date_of t = Some d) stamps)))"

text \<open>
  \<^verbatim>\<open>df.groupby([a, b]).size().reset_index(name=...)\<close> (line 100): one row for each pair
  of values of the two columns, in the order of the pairs, with the number of rows of
  the frame that have the pair; a row with a missing value in one of the two columns
  belongs to no group.
\<close>

definition group_key :: "cell \<times> cell \<Rightarrow> (string \<times> string) option" where
  "group_key p = (case p of (Str x, Str y) \<Rightarrow> Some (x, y) | _ \<Rightarrow> None)"

definition groupby_size ::
  "cell frame \<Rightarrow> string \<Rightarrow> string \<Rightarrow> error + (string \<times> string \<times> nat) list" where
  "groupby_size df a b =
     (case get_column df a of Inl x \<Rightarrow> Inl x | Inr ka \<Rightarrow>
      case get_column df b of Inl x \<Rightarrow> Inl x | Inr kb \<Rightarrow>
        if list_ex is_Time ka \<or> list_ex is_Time kb then Inl Unmodelled
        else
          let keys = List.map_filter group_key (zip ka kb)
          in Inr (map (\<lambda>g. (fst g, snd g, count_list keys g)) (sort (remdups keys))))"

datatype dashboard_option = Tanker_Purchase_Summary | Ticket_Status

datatype dashboard_content =
    Summary "(string \<times> string \<times> nat) list"
  | Table "cell frame"

text \<open>
  The Dashboard branch: \<open>dashboard_option\<close> is the radio button, \<open>kitchen_filter\<close> and
  \<open>date_filter\<close> the two widgets of the Ticket Status view (\<open>None\<close> when no date is
  chosen). The result is what \<^verbatim>\<open>st.dataframe\<close> shows: the rows of the summary
  (kitchen, month, count), or the filtered frame. The bar chart of line 102 draws the
  same summary and is not modelled.
\<close>

definition dashboard ::
  "datetime_parser \<Rightarrow> dashboard_option \<Rightarrow> string \<Rightarrow> date option \<Rightarrow> worksheet \<Rightarrow>
   error + dashboard_content page" where
  "dashboard parse dashboard_option kitchen_filter date_filter sh =
     (let data = get_all_values sh in
      if length data < 2 then Inr (Notice (Info ''No data available yet.''))
      else
      case DataFrame (map (map Str) (tl data)) (hd data) of Inl x \<Rightarrow> Inl x | Inr df0 \<Rightarrow>
      case get_column df0 ''Timestamp'' of Inl x \<Rightarrow> Inl x | Inr ts \<Rightarrow>
      case to_datetime parse ts of Inl x \<Rightarrow> Inl x | Inr parsed \<Rightarrow>
      let df = set_column df0 ''Timestamp'' parsed in
      (case dashboard_option of
         Tanker_Purchase_Summary \<Rightarrow>
           (case get_column df ''Timestamp'' of Inl x \<Rightarrow> Inl x | Inr col \<Rightarrow>
            case dt col of Inl x \<Rightarrow> Inl x | Inr stamps \<Rightarrow>
            let df1 = set_column df ''Month'' (dt_strftime_month stamps) in
            case groupby_size df1 ''Kitchen'' ''Month'' of
              Inl x \<Rightarrow> Inl x
            | Inr tanker_summary \<Rightarrow> Inr (Content (Summary tanker_summary)))
       | Ticket_Status \<Rightarrow>
           (case get_column df ''Kitchen'' of Inl x \<Rightarrow> Inl x | Inr kitchen_options \<Rightarrow>
            case (if kitchen_filter \<noteq> ''All''
                  then where_eq df ''Kitchen'' (Str kitchen_filter)
                  else Inr df) of Inl x \<Rightarrow> Inl x | Inr f1 \<Rightarrow>
            case (case date_filter of
                    None \<Rightarrow> Inr f1
                  | Some d \<Rightarrow> where_date f1 ''Timestamp'' d) of Inl x \<Rightarrow> Inl x | Inr f2 \<Rightarrow>
              Inr (Content (Table f2)))))"

subsection \<open>A fragment of \<^verbatim>\<open>pd.to_datetime\<close>\<close>











subsection \<open>Values for the examples\<close>

text \<open>The engine of the examples: none of their patterns has a special character.\<close>

definition no_engine :: regex_engine where
  "no_engine pat = Inl Unmodelled"

definition example_secrets :: secrets where
  "example_secrets = Some [''admin_password'' \<mapsto> ''s3cret'']"

definition example_time :: datetime where
  "example_time = \<lparr>year = 2024, month = Jan, day = 15, hour = 9, minute = 5, second = 3\<rparr>"

definition example_header :: row where
  "example_header =
     [''Timestamp'', ''Kitchen'', ''Employee Name'', ''Employee ID'', ''Photo URL'',
      ''Status'', ''Reviewer'', ''Comments'']"

definition example_world :: world where
  "example_world = \<lparr>sheet = [example_header], drive = []\<rparr>"

definition request_asha :: row where
  "request_asha =
     [''2024-01-15 09:05:03'', ''WFD01'', ''Asha'', ''E7'',
      ''https://drive.google.com/uc?export=view&id=f1'', ''Pending'', [], []]"

definition request_bob :: row where
  "request_bob =
     [''2024-01-20 10:00:00'', ''WFD01'', ''Bob'', ''E12'',
      ''https://drive.google.com/uc?export=view&id=f2'', ''Approved'', ''alice'', ''ok'']"

definition request_chitra :: row where
  "request_chitra =
     [''2024-01-15 18:30:00'', ''HSR01'', ''Chitra'', ''E31'',
      ''https://drive.google.com/uc?export=view&id=f3'', ''Pending'', [], []]"

definition request_dev :: row where
  "request_dev =
     [''not a time'', ''BSN01'', ''Dev'', ''E44'',
      ''https://drive.google.com/uc?export=view&id=f4'', ''Rejected'', ''alice'', []]"

definition request_asha_k :: row where
  "request_asha_k =
     [''2024-02-02 08:00:00'', ''WFD01'', ''asha k'', ''E50'',
      ''https://drive.google.com/uc?export=view&id=f5'', ''Pending'', [], []]"

definition example_sheet :: worksheet where
  "example_sheet =
     [example_header, request_asha, request_bob, request_chitra, request_dev,
      request_asha_k]"

text \<open>A worksheet whose first timestamp was typed by hand, day first, and a worksheet
  whose timestamps carry two different UTC offsets.\<close>

definition dated_sheet :: worksheet where
  "dated_sheet =
     [example_header,
      [''15/01/2024 09:05:03'', ''WFD01'', ''Asha'', ''E7'',
       ''https://drive.google.com/uc?export=view&id=f1'', ''Pending'', [], []],
      [''2024-01-20 10:00:00'', ''WFD01'', ''Bob'', ''E12'',
       ''https://drive.google.com/uc?export=view&id=f2'', ''Pending'', [], []],
      [''20/01/2024 18:30:00'', ''HSR01'', ''Chitra'', ''E31'',
       ''https://drive.google.com/uc?export=view&id=f3'', ''Pending'', [], []]]"




subsection \<open>The requests, as the specification names them\<close>

text \<open>
  The requests of a worksheet are the rows after the header, as \<^verbatim>\<open>get_all_values\<close>
  returns them; a request has its fields in the order in which line 79 writes them.
  The script finds a column by the name in the header, so that the properties of the
  listings are stated for a worksheet whose header names the columns in that order
  (\<open>header_ok\<close>; the script never reads the name of the seventh column).
\<close>

definition requests :: "worksheet \<Rightarrow> row list" where
  "requests sh = tl (get_all_values sh)"

definition header_ok :: "row \<Rightarrow> bool" where
  "header_ok h =
     (length h = 8 \<and> distinct h
      \<and> h ! 0 = ''Timestamp'' \<and> h ! 1 = ''Kitchen'' \<and> h ! 2 = ''Employee Name''
      \<and> h ! 3 = ''Employee ID'' \<and> h ! 4 = ''Photo URL'' \<and> h ! 5 = ''Status''
      \<and> h ! 7 = ''Comments'')"

definition timestamp_of :: "'c list \<Rightarrow> 'c" where "timestamp_of r = r ! 0"
definition site_of :: "'c list \<Rightarrow> 'c" where "site_of r = r ! 1"
definition employee_name_of :: "'c list \<Rightarrow> 'c" where "employee_name_of r = r ! 2"
definition employee_id_of :: "'c list \<Rightarrow> 'c" where "employee_id_of r = r ! 3"
definition photo_url_of :: "'c list \<Rightarrow> 'c" where "photo_url_of r = r ! 4"
definition status_of :: "'c list \<Rightarrow> 'c" where "status_of r = r ! 5"
definition reviewer_of :: "'c list \<Rightarrow> 'c" where "reviewer_of r = r ! 6"
definition comment_of :: "'c list \<Rightarrow> 'c" where "comment_of r = r ! 7"

text \<open>\<open>s\<close> occurs in \<open>x\<close> as a substring, up to the case of the letters.\<close>

definition ci_substring :: "string \<Rightarrow> string \<Rightarrow> bool" where
  "ci_substring s x = (\<exists>u v. map lower_char x = u @ map lower_char s @ v)"

text \<open>The condition under which the Admin Dashboard lists a request: the view, the
  two select boxes, and the search when it is on, with \<open>found\<close> the search predicate
  of the compiled pattern.\<close>

definition listed ::
  "admin_menu \<Rightarrow> string \<Rightarrow> string \<Rightarrow> bool \<Rightarrow> (string \<Rightarrow> bool) \<Rightarrow> row \<Rightarrow> bool" where
  "listed menu kitchen_filter status_filter search_on found r =
     ((menu = Pending_Requests \<longrightarrow> status_of r = ''Pending'')
      \<and> (kitchen_filter \<noteq> ''All'' \<longrightarrow> site_of r = kitchen_filter)
      \<and> (status_filter \<noteq> ''All'' \<longrightarrow> status_of r = status_filter)
      \<and> (search_on \<longrightarrow> found (employee_name_of r) \<or> found (employee_id_of r)))"

text \<open>The card of the request with label \<open>i\<close> and row \<open>r\<close>.\<close>

definition card_for :: "(string \<Rightarrow> datetime option) \<Rightarrow> nat \<times> row \<Rightarrow> card" where
  "card_for strptime e =
     \<lparr>card_index = fst e, card_row = snd e,
      request_time_str = request_time strptime (timestamp_of (snd e)),
      card_kitchen = site_of (snd e), card_employee = employee_name_of (snd e),
      card_employee_id = employee_id_of (snd e), card_status = status_of (snd e),
      card_photo_url = photo_url_of (snd e), card_comment = comment_of (snd e)\<rparr>"

text \<open>The labels of the cards that a page of the Admin Dashboard shows.\<close>

definition shown_indices :: "error + card list page \<Rightarrow> nat list" where
  "shown_indices res =
     (case res of Inr (Content cards) \<Rightarrow> map card_index cards | _ \<Rightarrow> [])"

text \<open>
  The Dashboard, in the terms of the requests. \<open>stamps\<close> is the column of timestamps as
  the view reads it, one entry for each request: the timestamp, or \<open>None\<close> for a
  request whose text pandas does not read. With it: the row that the view shows for
  request \<open>i\<close> (the request with its timestamp read), the calendar month as the summary
  writes it, and the number of requests of a site in a calendar month.
\<close>

definition stamp_cell :: "datetime option \<Rightarrow> cell" where
  "stamp_cell s = (case s of Some t \<Rightarrow> Time t | None \<Rightarrow> Null)"

definition typed_request :: "datetime option list \<Rightarrow> worksheet \<Rightarrow> nat \<Rightarrow> cell list" where
  "typed_request stamps sh i = (map Str (requests sh ! i))[0 := stamp_cell (stamps ! i)]"





subsection \<open>Runs of the application\<close>

text \<open>
  The two steps that write to a store, in one session: a press of "Submit Request"
  with any widget values, and a press of one of the three buttons of a card that the
  Admin Dashboard shows for the worksheet as it is. The Dashboard branch writes
  nothing. A state is reachable when a sequence of such steps leads to it from the
  worksheet that holds the header row only.
\<close>

inductive app_step ::
  "regex_engine \<Rightarrow> (string \<Rightarrow> datetime option) \<Rightarrow> secrets \<Rightarrow> world \<Rightarrow> world \<Rightarrow> bool"
  for re strptime secrets where
    submit:
      "app_step re strptime secrets w
         (fst (submit_request t_upload file_id t_row kitchen emp_name emp_id picture w))"
  | decide:
      "admin_dashboard re strptime secrets password admin_name
           menu kitchen_filter status_filter search_text (sheet w) = Inr (Content cards)
       \<Longrightarrow> c \<in> set cards
       \<Longrightarrow> app_step re strptime secrets w
             (w\<lparr>sheet := fst (admin_action admin_name (card_index c) a (sheet w))\<rparr>)"

inductive reachable ::
  "regex_engine \<Rightarrow> (string \<Rightarrow> datetime option) \<Rightarrow> secrets \<Rightarrow> row \<Rightarrow> world \<Rightarrow> bool"
  for re strptime secrets header where
    start: "reachable re strptime secrets header \<lparr>sheet = [header], drive = []\<rparr>"
  | step:
      "reachable re strptime secrets header w \<Longrightarrow> app_step re strptime secrets w w'
       \<Longrightarrow> reachable re strptime secrets header w'"

text \<open>The invariant of the rows after the header: eight cells, and a status that is
  one of the three.\<close>

definition status_ok :: "worksheet \<Rightarrow> bool" where
  "status_ok sh =
     (sh \<noteq> [] \<and>
      (\<forall>j. 0 < j \<and> j < length sh \<longrightarrow>
         length (sh ! j) = 8 \<and> sh ! j ! 5 \<in> {''Pending'', ''Approved'', ''Rejected''}))"

definition example_world_1 :: world where
  "example_world_1 =
     fst (submit_request example_time (Some ''f1'') example_time
            ''WFD01'' ''Asha'' ''E7'' (Some ''jpg'') example_world)"

definition example_world_2 :: world where
  "example_world_2 =
     example_world_1\<lparr>sheet := fst (admin_action ''alice'' 0 Approve (sheet example_world_1))\<rparr>"

section \<open>Properties\<close>

lemmas example_rows =
  example_header_def request_asha_def request_bob_def request_chitra_def request_dev_def
  request_asha_k_def


subsection \<open>Strings\<close>

lemma strip_Nil_iff: "strip s = [] \<longleftrightarrow> (\<forall>c \<in> set s. isspace c)"
proof
  assume "strip s = []"
  then have all: "\<forall>x \<in> set (dropWhile isspace s). isspace x"
    by (simp add: strip_def dropWhile_eq_Nil_conv)
  have "dropWhile isspace s = []"
  proof (rule ccontr)
    assume ne: "dropWhile isspace s \<noteq> []"
    then have "\<not> isspace (hd (dropWhile isspace s))"
      by (rule hd_dropWhile)
    moreover have "hd (dropWhile isspace s) \<in> set (dropWhile isspace s)"
      using ne by simp
    ultimately show False using all by blast
  qed
  then show "\<forall>c \<in> set s. isspace c"
    by (simp add: dropWhile_eq_Nil_conv)
next
  assume "\<forall>c \<in> set s. isspace c"
  then have "dropWhile isspace s = []"
    by (simp add: dropWhile_eq_Nil_conv)
  then show "strip s = []"
    by (simp only: strip_def) simp
qed

subsection \<open>Submission\<close>

lemma save_image_to_drive_url_nonempty:
  "fst (save_image_to_drive now file_id image_data drv) \<noteq> []"
  by (simp add: save_image_to_drive_def)



text \<open>
  Claim C3. A submission in which a required field is missing (the kitchen is still the
  placeholder "--Select--", the employee name is empty, the employee id is empty, or no
  photo was taken) leaves both stores as they were: no row is appended to the worksheet,
  nothing is uploaded to the drive, and the page shows the validation warning.
\<close>

theorem submit_invalid_no_write:
  assumes "kitchen = ''--Select--'' \<or> emp_name = [] \<or> emp_id = [] \<or> picture = None"
  shows "submit_request t_upload file_id t_row kitchen emp_name emp_id picture w
           = (w, Warning ''Please fill all fields and take a photo.'')"
  using assms by (auto simp: submit_request_def split: option.splits)

theorem submit_invalid_witness:
  "submit_request example_time (Some ''f1'') example_time
      ''--Select--'' ''Asha'' ''E7'' (Some ''jpg'') example_world
    = (example_world, Warning ''Please fill all fields and take a photo.'')
   \<and> submit_request example_time (Some ''f1'') example_time
      ''WFD01'' [] ''E7'' (Some ''jpg'') example_world
    = (example_world, Warning ''Please fill all fields and take a photo.'')
   \<and> submit_request example_time (Some ''f1'') example_time
      ''WFD01'' ''Asha'' [] (Some ''jpg'') example_world
    = (example_world, Warning ''Please fill all fields and take a photo.'')
   \<and> submit_request example_time (Some ''f1'') example_time
      ''WFD01'' ''Asha'' ''E7'' None example_world
    = (example_world, Warning ''Please fill all fields and take a photo.'')"
  using
    submit_invalid_no_write [of "''--Select--''" "''Asha''" "''E7''" "Some ''jpg''"
      example_time "Some ''f1''" example_time example_world]
    submit_invalid_no_write [of "''WFD01''" "[]" "''E7''" "Some ''jpg''"
      example_time "Some ''f1''" example_time example_world]
    submit_invalid_no_write [of "''WFD01''" "''Asha''" "[]" "Some ''jpg''"
      example_time "Some ''f1''" example_time example_world]
    submit_invalid_no_write [of "''WFD01''" "''Asha''" "''E7''" "None"
      example_time "Some ''f1''" example_time example_world]
  by simp

subsection \<open>The access gate\<close>

lemma admin_gate_None_iff:
  assumes "secrets_get secrets ''admin_password'' ''admin123'' = Inr secret"
  shows "admin_gate secrets p n = Inr None \<longleftrightarrow> p = secret \<and> strip n \<noteq> []"
  using assms by (auto simp: admin_gate_def is_admin_def)

lemma admin_dashboard_no_secrets_file:
  "admin_dashboard re strptime None p n menu kitchen_filter status_filter search_text sh
     = Inl SecretsNotFound"
  by (simp add: admin_dashboard_def admin_gate_def is_admin_def secrets_get_def)

text \<open>
  Claim C4, as stated, fails: with the secret "s3cret" configured, the password
  "s3cret" and the reviewer name " " (one space, so not empty), the branch stops at the
  second warning and the listing is not shown.
\<close>

theorem gate_blank_name_counterexample:
  "admin_dashboard no_engine parse_written (Some [''admin_password'' \<mapsto> ''s3cret''])
       ''s3cret'' '' '' All_Requests ''All'' ''All'' [] [example_header]
     = Inr (Notice (Warning
         ''Please enter your name/email in the sidebar to access Admin Dashboard.''))
   \<and> secrets_get (Some [''admin_password'' \<mapsto> ''s3cret'']) ''admin_password'' ''admin123''
       = Inr ''s3cret''
   \<and> '' '' \<noteq> []"
  by (simp add: admin_dashboard_def admin_gate_def is_admin_def secrets_get_def
      strip_def isspace_def)

text \<open>
  Claim C4, amended. Let the secrets file exist, and let \<open>secret\<close> be what the read of
  the admin secret returns: the configured value, or the default "admin123" when the
  file has no entry for it. For every submitted password \<open>p\<close> and reviewer name \<open>n\<close>, the
  Admin Dashboard goes on to the listing if and only if \<open>p\<close> equals \<open>secret\<close> and \<open>n\<close> has a
  character that is not whitespace (\<open>n.strip()\<close> is not empty). Any \<open>p\<close> that differs from
  \<open>secret\<close> stops at the password warning whatever \<open>n\<close> is; the right password with a
  blank name stops at the name warning. (With no secrets file the read raises; the
  statement leaves that case out.)
\<close>

theorem gate_opens_iff:
  assumes "secrets = Some file"
  shows "secrets_get secrets ''admin_password'' ''admin123''
           = Inr (case file ''admin_password'' of None \<Rightarrow> ''admin123'' | Some v \<Rightarrow> v)
   \<and> (\<forall>secret. secrets_get secrets ''admin_password'' ''admin123'' = Inr secret \<longrightarrow>
       (admin_gate secrets p n = Inr None \<longleftrightarrow> p = secret \<and> (\<exists>c \<in> set n. \<not> isspace c))
     \<and> (admin_gate secrets p n = Inr None \<longrightarrow>
          admin_dashboard re strptime secrets p n menu kitchen_filter status_filter
              search_text sh
            = admin_panel re strptime menu kitchen_filter status_filter search_text
                (get_all_values sh))
     \<and> (p \<noteq> secret \<longrightarrow>
          admin_dashboard re strptime secrets p n menu kitchen_filter status_filter
              search_text sh
            = Inr (Notice (Warning ''Please enter correct admin password.'')))
     \<and> (p = secret \<and> (\<forall>c \<in> set n. isspace c) \<longrightarrow>
          admin_dashboard re strptime secrets p n menu kitchen_filter status_filter
              search_text sh
            = Inr (Notice (Warning
                ''Please enter your name/email in the sidebar to access Admin Dashboard.''))))"
  using assms
  by (auto simp: admin_dashboard_def admin_gate_def is_admin_def secrets_get_def strip_Nil_iff)

theorem gate_opens_witness:
  "admin_gate (Some [''admin_password'' \<mapsto> ''s3cret'']) ''s3cret'' ''alice'' = Inr None
   \<and> admin_dashboard no_engine parse_written (Some [''admin_password'' \<mapsto> ''s3cret''])
        ''guess'' ''alice'' All_Requests ''All'' ''All'' [] [example_header]
       = Inr (Notice (Warning ''Please enter correct admin password.''))
   \<and> admin_dashboard no_engine parse_written (Some [''admin_password'' \<mapsto> ''s3cret''])
        ''admin123'' ''alice'' All_Requests ''All'' ''All'' [] [example_header]
       = Inr (Notice (Warning ''Please enter correct admin password.''))
   \<and> admin_dashboard no_engine parse_written (Some Map.empty)
        ''admin123'' ''alice'' All_Requests ''All'' ''All'' [] [example_header]
       = admin_panel no_engine parse_written All_Requests ''All'' ''All'' []
           (get_all_values [example_header])"
  using
    gate_opens_iff [of "Some [''admin_password'' \<mapsto> ''s3cret'']"
      "[''admin_password'' \<mapsto> ''s3cret'']" "''s3cret''" "''alice''"
      no_engine parse_written All_Requests "''All''" "''All''" "[]" "[example_header]"]
    gate_opens_iff [of "Some [''admin_password'' \<mapsto> ''s3cret'']"
      "[''admin_password'' \<mapsto> ''s3cret'']" "''guess''" "''alice''"
      no_engine parse_written All_Requests "''All''" "''All''" "[]" "[example_header]"]
    gate_opens_iff [of "Some [''admin_password'' \<mapsto> ''s3cret'']"
      "[''admin_password'' \<mapsto> ''s3cret'']" "''admin123''" "''alice''"
      no_engine parse_written All_Requests "''All''" "''All''" "[]" "[example_header]"]
    gate_opens_iff [of "Some Map.empty" Map.empty "''admin123''" "''alice''"
      no_engine parse_written All_Requests "''All''" "''All''" "[]" "[example_header]"]
  by (simp add: isspace_def)

subsection \<open>The worksheet\<close>

lemma length_pad_to: "length (pad_to n d xs) = max (length xs) n"
  by (simp add: pad_to_def)

lemma length_update_cell: "length (update_cell r0 c0 v sh) = max (length sh) r0"
  by (simp add: update_cell_def Let_def length_pad_to)

lemma length_get_all_values: "length (get_all_values sh) = length sh"
  by (simp add: get_all_values_def)

lemma cell_at_update_cell_Suc:
  "cell_at (update_cell (Suc a) (Suc b) v sh) r c
     = (if r = Suc a \<and> c = Suc b then v else cell_at sh r c)"
proof -
  define sh1 where "sh1 = pad_to (Suc a) [] sh"
  define old where "old = sh1 ! a"
  define new where "new = (pad_to (Suc b) [] old)[b := v]"
  have upd: "update_cell (Suc a) (Suc b) v sh = sh1[a := new]"
    by (simp add: update_cell_def Let_def sh1_def old_def new_def)
  have len1: "length sh1 = max (length sh) (Suc a)"
    by (simp add: sh1_def length_pad_to)
  have cell1: "cell_at sh1 r' c' = cell_at sh r' c'" for r' c'
    by (auto simp: cell_at_def sh1_def pad_to_def nth_append)
  have lenn: "length new = max (length old) (Suc b)"
    by (simp add: new_def length_pad_to)
  have newb: "new ! b = v"
    by (simp add: new_def length_pad_to)
  have newc: "k \<noteq> b \<Longrightarrow> k < length old \<Longrightarrow> new ! k = old ! k" for k
    by (simp add: new_def pad_to_def nth_append)
  have newd: "k \<noteq> b \<Longrightarrow> length old \<le> k \<Longrightarrow> k < Suc b \<Longrightarrow> new ! k = []" for k
    by (simp add: new_def pad_to_def nth_append)
  have cell_old:
    "cell_at sh1 (Suc a) c' = (if 1 \<le> c' \<and> c' \<le> length old then old ! (c' - 1) else [])"
    for c'
    using len1 by (simp add: cell_at_def old_def)
  show ?thesis
  proof (cases "r = Suc a")
    case False
    then have "cell_at (sh1[a := new]) r c = cell_at sh1 r c"
      by (auto simp: cell_at_def)
    with False show ?thesis by (simp add: upd cell1)
  next
    case True
    have "cell_at (sh1[a := new]) (Suc a) c
        = (if 1 \<le> c \<and> c \<le> length new then new ! (c - 1) else [])"
      using len1 by (simp add: cell_at_def)
    also have "\<dots> = (if c = Suc b then v else cell_at sh1 (Suc a) c)"
    proof (cases "c = Suc b")
      case True
      then show ?thesis by (simp add: lenn newb)
    next
      case False
      show ?thesis
      proof (cases "1 \<le> c \<and> c \<le> length old")
        case True
        then have "new ! (c - 1) = old ! (c - 1)" using False by (intro newc) auto
        then show ?thesis using True False by (auto simp: cell_old lenn)
      next
        case nin: False
        show ?thesis
        proof (cases "1 \<le> c \<and> c \<le> length new")
          case True
          then have "new ! (c - 1) = []" using False nin lenn by (intro newd) auto
          then show ?thesis using True False nin by (auto simp: cell_old)
        next
          case False
          then show ?thesis using nin \<open>c \<noteq> Suc b\<close> by (auto simp: cell_old)
        qed
      qed
    qed
    finally show ?thesis using True by (simp add: upd cell1)
  qed
qed

lemma cell_at_update_cell:
  assumes "1 \<le> r0" and "1 \<le> c0"
  shows "cell_at (update_cell r0 c0 v sh) r c
           = (if r = r0 \<and> c = c0 then v else cell_at sh r c)"
proof -
  obtain a b where "r0 = Suc a" "c0 = Suc b"
    using assms by (metis Suc_le_D One_nat_def)
  then show ?thesis by (simp only: cell_at_update_cell_Suc)
qed

subsection \<open>Decisions\<close>

text \<open>
  Claim C2. Let \<open>i\<close> be the index of a request in the listing (the requests are the rows
  after the header). Approving request \<open>i\<close> as \<open>reviewer\<close> keeps the number of rows, and
  afterwards every cell of the worksheet is what it was, except two cells of the row of
  request \<open>i\<close> (row \<open>i + 2\<close> of the worksheet): column 6 (status) is "Approved" and
  column 7 (reviewer) is the reviewer's name. So every other row, and the timestamp,
  site, employee name, employee id, photo URL and comment of row \<open>i\<close>, are unchanged.
\<close>

theorem approve_sets_status_and_reviewer_only:
  assumes "i < length (tl (get_all_values sh))"
  shows "length (fst (admin_action reviewer i Approve sh)) = length sh
       \<and> (\<forall>r c. cell_at (fst (admin_action reviewer i Approve sh)) r c =
            (if r = i + 2 \<and> c = 6 then ''Approved''
             else if r = i + 2 \<and> c = 7 then reviewer
             else cell_at sh r c))"
proof -
  have "i + 2 \<le> length sh" using assms by (simp add: length_get_all_values)
  then show ?thesis
    by (auto simp: admin_action_def cell_at_update_cell length_update_cell)
qed

theorem approve_witness:
  "length (fst (admin_action ''alice'' 2 Approve example_sheet)) = 6
   \<and> cell_at (fst (admin_action ''alice'' 2 Approve example_sheet)) 4 6 = ''Approved''
   \<and> cell_at (fst (admin_action ''alice'' 2 Approve example_sheet)) 4 7 = ''alice''
   \<and> cell_at (fst (admin_action ''alice'' 2 Approve example_sheet)) 4 3 = ''Chitra''
   \<and> cell_at (fst (admin_action ''alice'' 2 Approve example_sheet)) 2 6 = ''Pending''
   \<and> cell_at (fst (admin_action ''alice'' 2 Approve example_sheet)) 5 6 = ''Rejected''"
proof -
  have len: "length example_sheet = 6"
    by (simp add: example_sheet_def)
  have pre: "2 < length (tl (get_all_values example_sheet))"
    by (simp add: length_get_all_values len)
  have cells: "cell_at example_sheet 4 3 = ''Chitra''"
    "cell_at example_sheet 2 6 = ''Pending''"
    "cell_at example_sheet 5 6 = ''Rejected''"
    by (simp_all add: cell_at_def example_sheet_def example_rows)
  show ?thesis
    using approve_sets_status_and_reviewer_only [OF pre, of "''alice''"]
    by (simp add: len cells)
qed

subsection \<open>Frames\<close>

lemma select_rows_entries_subset: "set (entries (select_rows df keep)) \<subseteq> set (entries df)"
  by (auto simp: select_rows_def dest: set_zip_leftD)

lemma select_rows_columns: "columns (select_rows df keep) = columns df"
  by (simp add: select_rows_def)

lemma where_eq_Inr:
  "where_eq df name v = Inr df' \<Longrightarrow>
     set (entries df') \<subseteq> set (entries df) \<and> columns df' = columns df"
  using select_rows_entries_subset [of df]
  by (auto simp: where_eq_def select_rows_columns split: sum.splits)

lemma search_rows_Inr:
  "search_rows re df s = Inr df' \<Longrightarrow>
     set (entries df') \<subseteq> set (entries df) \<and> columns df' = columns df"
  using select_rows_entries_subset [of df]
  by (auto simp: search_rows_def select_rows_columns split: sum.splits)

lemma DataFrame_Inr:
  "DataFrame data cols = Inr df \<Longrightarrow>
     entries df = zip [0..<length data] data \<and> columns df = cols"
  by (auto simp: DataFrame_def split: if_splits)

lemma map_result_Inr_set:
  "map_result f xs = Inr ys \<Longrightarrow> y \<in> set ys \<Longrightarrow> \<exists>x \<in> set xs. f x = Inr y"
proof (induction xs arbitrary: ys)
  case Nil
  then show ?case by simp
next
  case (Cons x xs)
  then show ?case
    by (auto split: sum.splits)
qed

lemma make_card_Inr:
  "make_card sp cols (i, r) = Inr c \<Longrightarrow> card_index c = i \<and> card_row c = r"
  by (auto simp: make_card_def split: sum.splits)

lemma admin_panel_cards_from_data:
  assumes "admin_panel re sp menu kf sf s data = Inr (Content cards)" and "c \<in> set cards"
  shows "(card_index c, card_row c) \<in> set (zip [0..<length (tl data)] (tl data))"
proof -
  from assms(1) obtain df f0 f1 f2 f3 where
    df: "DataFrame (tl data) (hd data) = Inr df"
    and f0: "(case menu of Pending_Requests \<Rightarrow> where_eq df ''Status'' ''Pending''
              | All_Requests \<Rightarrow> Inr df) = Inr f0"
    and f1: "(if kf \<noteq> ''All'' then where_eq f0 ''Kitchen'' kf else Inr f0) = Inr f1"
    and f2: "(if sf \<noteq> ''All'' then where_eq f1 ''Status'' sf else Inr f1) = Inr f2"
    and f3: "(if strip s \<noteq> [] then search_rows re f2 s else Inr f2) = Inr f3"
    and cards: "map_result (make_card sp (columns f3)) (entries f3) = Inr cards"
    by (auto simp: admin_panel_def split: if_splits sum.splits)
  have s0: "set (entries f0) \<subseteq> set (entries df)"
    using f0 by (cases menu) (auto dest: where_eq_Inr)
  have s1: "set (entries f1) \<subseteq> set (entries f0)"
    using f1 by (auto split: if_splits dest: where_eq_Inr)
  have s2: "set (entries f2) \<subseteq> set (entries f1)"
    using f2 by (auto split: if_splits dest: where_eq_Inr)
  have s3: "set (entries f3) \<subseteq> set (entries f2)"
    using f3 by (auto split: if_splits dest: search_rows_Inr)
  from map_result_Inr_set [OF cards assms(2)] obtain e where
    e: "e \<in> set (entries f3)" "make_card sp (columns f3) e = Inr c"
    by blast
  obtain i r where ir: "e = (i, r)" by (cases e)
  with e(2) have "card_index c = i \<and> card_row c = r" by (auto dest: make_card_Inr)
  moreover have "e \<in> set (entries df)" using e(1) s0 s1 s2 s3 by blast
  ultimately show ?thesis using ir DataFrame_Inr [OF df] by simp
qed

lemma admin_dashboard_Content_panel:
  "admin_dashboard re sp secrets pw n menu kf sf s sh = Inr (Content cards) \<Longrightarrow>
     admin_panel re sp menu kf sf s (get_all_values sh) = Inr (Content cards)"
  by (auto simp: admin_dashboard_def split: option.splits sum.splits)

lemma get_all_values_nth_cell:
  assumes "j < length sh" and "k < length (get_all_values sh ! j)"
  shows "get_all_values sh ! j ! k = cell_at sh (j + 1) (k + 1)"
  using assms by (auto simp: get_all_values_def cell_at_def pad_to_def nth_append)

lemma admin_card_is_sheet_row:
  assumes "admin_dashboard re sp secrets pw n menu kf sf s sh = Inr (Content cards)"
    and "c \<in> set cards"
  shows "card_index c < length (tl (get_all_values sh))"
    and "card_row c = tl (get_all_values sh) ! card_index c"
    and "\<forall>k < length (card_row c). card_row c ! k = cell_at sh (card_index c + 2) (k + 1)"
proof -
  let ?data = "get_all_values sh"
  have "(card_index c, card_row c) \<in> set (zip [0..<length (tl ?data)] (tl ?data))"
    using admin_panel_cards_from_data [OF admin_dashboard_Content_panel [OF assms(1)] assms(2)] .
  then obtain k where k: "k < length (tl ?data)" "card_index c = k" "card_row c = tl ?data ! k"
    by (auto simp: set_zip)
  show a: "card_index c < length (tl ?data)" using k by simp
  show b: "card_row c = tl ?data ! card_index c" using k by simp
  have lt: "card_index c + 1 < length sh"
    using a by (simp add: length_get_all_values)
  have row: "card_row c = ?data ! (card_index c + 1)"
    using b a by (simp add: nth_tl)
  show "\<forall>k < length (card_row c). card_row c ! k = cell_at sh (card_index c + 2) (k + 1)"
    using get_all_values_nth_cell [OF lt] by (simp add: row)
qed

lemma filter_eq_upt: "j < n \<Longrightarrow> filter (\<lambda>i. i = j) [0..<n] = [j]"
proof (induction n)
  case 0
  then show ?case by simp
next
  case (Suc n)
  show ?case
  proof (cases "j = n")
    case True
    then have "filter (\<lambda>i. i = j) [0..<n] = []"
      by (auto simp: filter_empty_conv)
    with True show ?thesis by simp
  next
    case False
    with Suc show ?thesis by simp
  qed
qed

lemma col_positions_distinct:
  assumes "distinct cols" and "j < length cols"
  shows "col_positions cols (cols ! j) = [j]"
proof -
  have "filter (\<lambda>i. cols ! i = cols ! j) [0..<length cols] = filter (\<lambda>i. i = j) [0..<length cols]"
    using assms by (intro filter_cong) (auto simp: nth_eq_iff_index_eq)
  then show ?thesis using assms(2) by (simp add: col_positions_def filter_eq_upt)
qed

lemma column_index_distinct:
  assumes "distinct cols" and "j < length cols" and "cols ! j = name"
  shows "column_index cols name = Inr j"
  using col_positions_distinct [OF assms(1,2)] assms(3) by (simp add: column_index_def)

lemma header_ok_column_index:
  assumes "header_ok h"
  shows "column_index h ''Timestamp'' = Inr 0"
    and "column_index h ''Kitchen'' = Inr 1"
    and "column_index h ''Employee Name'' = Inr 2"
    and "column_index h ''Employee ID'' = Inr 3"
    and "column_index h ''Photo URL'' = Inr 4"
    and "column_index h ''Status'' = Inr 5"
    and "column_index h ''Comments'' = Inr 7"
  using assms by (auto simp: header_ok_def intro!: column_index_distinct)

lemma select_rows_map:
  "select_rows df (map g (entries df)) = df\<lparr>entries := filter g (entries df)\<rparr>"
proof -
  have "map fst (filter snd (zip xs (map g xs))) = filter g xs" for xs :: "(nat \<times> 'a list) list"
    by (induction xs) auto
  then show ?thesis by (simp add: select_rows_def)
qed

lemma where_eq_filter:
  assumes "column_index (columns df) name = Inr j"
  shows "where_eq df name v = Inr (df\<lparr>entries := filter (\<lambda>e. snd e ! j = v) (entries df)\<rparr>)"
proof -
  have m: "map (\<lambda>x. x = v) (map (\<lambda>(i, r). r ! j) xs) = map (\<lambda>e. snd e ! j = v) xs"
    for xs :: "(nat \<times> 'a list) list"
    by (induction xs) auto
  show ?thesis
    by (simp only: where_eq_def get_column_def assms sum.case m select_rows_map)
qed

lemma search_rows_filter:
  assumes "column_index (columns df) ''Employee Name'' = Inr a"
    and "column_index (columns df) ''Employee ID'' = Inr b"
    and "re_compile_ignorecase re s = Inr found"
  shows "search_rows re df s
           = Inr (df\<lparr>entries := filter (\<lambda>e. found (snd e ! a) \<or> found (snd e ! b)) (entries df)\<rparr>)"
proof -
  have m: "map (\<lambda>(x, y). x \<or> y)
          (zip (map found (map (\<lambda>(i, r). r ! a) xs))
               (map found (map (\<lambda>(i, r). r ! b) xs)))
        = map (\<lambda>e. found (snd e ! a) \<or> found (snd e ! b)) xs"
    for xs :: "(nat \<times> string list) list"
    by (induction xs) auto
  show ?thesis
    by (simp only: search_rows_def get_column_def str_contains_def assms sum.case m
        select_rows_map)
qed

lemma map_result_all_Inr:
  "(\<And>x. x \<in> set xs \<Longrightarrow> f x = Inr (g x)) \<Longrightarrow> map_result f xs = Inr (map g xs)"
  by (induction xs) auto

lemma make_card_header_ok:
  assumes "header_ok cols"
  shows "make_card sp cols e = Inr (card_for sp e)"
  using header_ok_column_index [OF assms]
  by (cases e)
     (simp add: make_card_def series_get_def card_for_def timestamp_of_def site_of_def
        employee_name_of_def employee_id_of_def photo_url_of_def status_of_def comment_of_def)


lemma DataFrame_rect:
  assumes "\<forall>r \<in> set rows. length r = length cols"
  shows "DataFrame rows cols = Inr \<lparr>columns = cols, entries = zip [0..<length rows] rows\<rparr>"
  using assms by (simp add: DataFrame_def list_all_iff)

lemma get_column_index:
  "column_index (columns df) name = Inr j \<Longrightarrow>
     get_column df name = Inr (map (\<lambda>(i, r). r ! j) (entries df))"
  by (simp add: get_column_def)

lemma admin_panel_listing:
  assumes len: "2 \<le> length data" and hdr: "header_ok (hd data)"
    and rect: "\<forall>r \<in> set (tl data). length r = length (hd data)"
    and comp: "strip s \<noteq> [] \<Longrightarrow> re_compile_ignorecase re s = Inr found"
  shows "admin_panel re sp menu kf sf s data =
     (let kept = filter (\<lambda>e. listed menu kf sf (strip s \<noteq> []) found (snd e))
                   (zip [0..<length (tl data)] (tl data))
      in if kept = [] then Inr (Notice (Info ''No matching requests found.''))
         else Inr (Content (map (card_for sp) kept)))"
proof -
  define df :: "string frame" where
    "df = \<lparr>columns = hd data, entries = zip [0..<length (tl data)] (tl data)\<rparr>"
  define f0 where "f0 = df\<lparr>entries :=
    filter (\<lambda>e. menu = Pending_Requests \<longrightarrow> status_of (snd e) = ''Pending'') (entries df)\<rparr>"
  define f1 where "f1 = f0\<lparr>entries :=
    filter (\<lambda>e. kf \<noteq> ''All'' \<longrightarrow> site_of (snd e) = kf) (entries f0)\<rparr>"
  define f2 where "f2 = f1\<lparr>entries :=
    filter (\<lambda>e. sf \<noteq> ''All'' \<longrightarrow> status_of (snd e) = sf) (entries f1)\<rparr>"
  define f3 where "f3 = f2\<lparr>entries :=
    filter (\<lambda>e. strip s \<noteq> [] \<longrightarrow>
              found (employee_name_of (snd e)) \<or> found (employee_id_of (snd e))) (entries f2)\<rparr>"
  note ci = header_ok_column_index [OF hdr]
  have cols: "columns df = hd data" "columns f0 = hd data" "columns f1 = hd data"
    "columns f2 = hd data" "columns f3 = hd data"
    by (simp_all add: df_def f0_def f1_def f2_def f3_def)
  have D: "DataFrame (tl data) (hd data) = Inr df"
    using DataFrame_rect [OF rect] by (simp add: df_def)
  have F0: "(case menu of Pending_Requests \<Rightarrow> where_eq df ''Status'' ''Pending''
             | All_Requests \<Rightarrow> Inr df) = Inr f0"
    by (cases menu) (simp_all add: f0_def where_eq_filter [of df _ 5] ci cols status_of_def)
  have K: "get_column f0 ''Kitchen'' = Inr (map (\<lambda>(i, r). r ! 1) (entries f0))"
    by (rule get_column_index) (simp add: cols ci)
  have S: "get_column f0 ''Status'' = Inr (map (\<lambda>(i, r). r ! 5) (entries f0))"
    by (rule get_column_index) (simp add: cols ci)
  have F1: "(if kf \<noteq> ''All'' then where_eq f0 ''Kitchen'' kf else Inr f0) = Inr f1"
    by (simp add: f1_def where_eq_filter [of f0 _ 1] ci cols site_of_def)
  have F2: "(if sf \<noteq> ''All'' then where_eq f1 ''Status'' sf else Inr f1) = Inr f2"
    by (simp add: f2_def where_eq_filter [of f1 _ 5] ci cols status_of_def)
  have F3: "(if strip s \<noteq> [] then search_rows re f2 s else Inr f2) = Inr f3"
  proof (cases "strip s \<noteq> []")
    case True
    then show ?thesis
      using search_rows_filter [of f2 2 3 re s found] comp
      by (simp add: f3_def ci cols employee_name_of_def employee_id_of_def)
  next
    case False
    then show ?thesis by (simp add: f3_def)
  qed
  have E: "entries f3 = filter (\<lambda>e. listed menu kf sf (strip s \<noteq> []) found (snd e))
                          (zip [0..<length (tl data)] (tl data))"
    by (simp add: f3_def f2_def f1_def f0_def df_def listed_def conj_commute conj_left_commute
        cong: conj_cong)
  have C: "map_result (make_card sp (columns f3)) (entries f3) = Inr (map (card_for sp) (entries f3))"
    by (rule map_result_all_Inr) (simp add: cols make_card_header_ok [OF hdr])
  have nlt: "\<not> length data < 2" using len by simp
  have "admin_panel re sp menu kf sf s data =
      (if entries f3 = [] then Inr (Notice (Info ''No matching requests found.''))
       else Inr (Content (map (card_for sp) (entries f3))))"
    by (simp only: admin_panel_def nlt if_False D F0 K S F1 F2 F3 C sum.case)
  then show ?thesis by (simp add: E Let_def)
qed

lemma fold_max_ge_init: "(a::nat) \<le> fold max xs a"
proof (induction xs arbitrary: a)
  case Nil
  then show ?case by simp
next
  case (Cons y ys)
  have "a \<le> max y a" by simp
  also have "\<dots> \<le> fold max ys (max y a)" by (rule Cons.IH)
  finally show ?case by simp
qed

lemma fold_max_ge: "x \<in> set xs \<Longrightarrow> x \<le> fold max xs (a::nat)"
proof (induction xs arbitrary: a)
  case Nil
  then show ?case by simp
next
  case (Cons y ys)
  show ?case
  proof (cases "x = y")
    case True
    have "y \<le> max y a" by simp
    also have "\<dots> \<le> fold max ys (max y a)" by (rule fold_max_ge_init)
    finally show ?thesis using True by simp
  next
    case False
    with Cons.prems have "x \<in> set ys" by simp
    then show ?thesis using Cons.IH by simp
  qed
qed

lemma get_all_values_rect:
  assumes "r \<in> set (get_all_values sh)"
  shows "length r = fold max (map length sh) 0"
proof -
  from assms obtain x where x: "x \<in> set sh" "r = pad_to (fold max (map length sh) 0) [] x"
    by (auto simp: get_all_values_def)
  have "length x \<le> fold max (map length sh) 0"
    using x(1) by (intro fold_max_ge) simp
  then show ?thesis using x(2) by (simp add: length_pad_to)
qed

lemma requests_rect:
  assumes "2 \<le> length sh"
  shows "\<forall>r \<in> set (tl (get_all_values sh)). length r = length (hd (get_all_values sh))"
proof -
  have ne: "get_all_values sh \<noteq> []" using assms by (auto simp: get_all_values_def)
  then have "hd (get_all_values sh) \<in> set (get_all_values sh)" by simp
  moreover have "set (tl (get_all_values sh)) \<subseteq> set (get_all_values sh)"
    using ne by (auto dest: list.set_sel(2))
  ultimately show ?thesis by (auto dest!: get_all_values_rect)
qed

lemma match_here_ci_iff:
  "match_here_ci p x \<longleftrightarrow> (\<exists>v. map lower_char x = map lower_char p @ v)"
  by (induction p x rule: match_here_ci.induct) auto

lemma search_ci_iff: "search_ci s x \<longleftrightarrow> ci_substring s x"
proof (induction x)
  case Nil
  then show ?case by (auto simp: ci_substring_def match_here_ci_iff)
next
  case (Cons c cs)
  show ?case
  proof
    assume "search_ci s (c # cs)"
    then consider "match_here_ci s (c # cs)" | "search_ci s cs" by auto
    then show "ci_substring s (c # cs)"
    proof cases
      case 1
      then obtain v where "map lower_char (c # cs) = map lower_char s @ v"
        by (auto simp: match_here_ci_iff)
      then have "map lower_char (c # cs) = [] @ map lower_char s @ v" by simp
      then show ?thesis unfolding ci_substring_def by blast
    next
      case 2
      then obtain u v where "map lower_char cs = u @ map lower_char s @ v"
        using Cons.IH by (auto simp: ci_substring_def)
      then have "map lower_char (c # cs) = (lower_char c # u) @ map lower_char s @ v" by simp
      then show ?thesis unfolding ci_substring_def by blast
    qed
  next
    assume "ci_substring s (c # cs)"
    then obtain u v where uv: "map lower_char (c # cs) = u @ map lower_char s @ v"
      by (auto simp: ci_substring_def)
    show "search_ci s (c # cs)"
    proof (cases u)
      case Nil
      with uv have "match_here_ci s (c # cs)" by (auto simp: match_here_ci_iff)
      then show ?thesis by simp
    next
      case (Cons a u')
      with uv have "map lower_char cs = u' @ map lower_char s @ v" by simp
      then have "ci_substring s cs" unfolding ci_substring_def by blast
      then show ?thesis using Cons.IH by simp
    qed
  qed
qed

lemma re_compile_literal:
  "\<forall>c \<in> set s. c \<notin> set re_special \<Longrightarrow> re_compile_ignorecase re s = Inr (search_ci s)"
  by (simp add: re_compile_ignorecase_def list_all_iff)

lemma set_filter_zip_upt:
  "set (filter P (zip [0..<length xs] xs)) = {(i, xs ! i) | i. i < length xs \<and> P (i, xs ! i)}"
proof -
  have "(i, x) \<in> set (zip [0..<length xs] xs) \<longleftrightarrow> i < length xs \<and> x = xs ! i" for i x
  proof
    assume "(i, x) \<in> set (zip [0..<length xs] xs)"
    then show "i < length xs \<and> x = xs ! i" by (auto simp: set_zip)
  next
    assume a: "i < length xs \<and> x = xs ! i"
    then have "(i, x) = zip [0..<length xs] xs ! i" by simp
    moreover have "i < length (zip [0..<length xs] xs)" using a by simp
    ultimately show "(i, x) \<in> set (zip [0..<length xs] xs)" by (metis nth_mem)
  qed
  then show ?thesis by auto
qed

lemma admin_dashboard_listing:
  assumes gate: "admin_gate secrets pw n = Inr None"
    and len: "2 \<le> length sh" and hdr: "header_ok (hd (get_all_values sh))"
    and comp: "strip s \<noteq> [] \<Longrightarrow> re_compile_ignorecase re s = Inr found"
  shows "admin_dashboard re sp secrets pw n menu kf sf s sh =
     (let kept = filter (\<lambda>e. listed menu kf sf (strip s \<noteq> []) found (snd e))
                   (zip [0..<length (requests sh)] (requests sh))
      in if kept = [] then Inr (Notice (Info ''No matching requests found.''))
         else Inr (Content (map (card_for sp) kept)))"
proof -
  have "2 \<le> length (get_all_values sh)" using len by (simp add: length_get_all_values)
  from admin_panel_listing [OF this hdr requests_rect [OF len] comp]
  show ?thesis using gate by (simp add: admin_dashboard_def requests_def)
qed

lemma shown_indices_listing:
  assumes gate: "admin_gate secrets pw n = Inr None"
    and len: "2 \<le> length sh" and hdr: "header_ok (hd (get_all_values sh))"
    and comp: "strip s \<noteq> [] \<Longrightarrow> re_compile_ignorecase re s = Inr found"
  shows "set (shown_indices (admin_dashboard re sp secrets pw n menu kf sf s sh))
     = {i. i < length (requests sh) \<and> listed menu kf sf (strip s \<noteq> []) found (requests sh ! i)}"
proof -
  let ?kept = "filter (\<lambda>e. listed menu kf sf (strip s \<noteq> []) found (snd e))
                   (zip [0..<length (requests sh)] (requests sh))"
  have "shown_indices (admin_dashboard re sp secrets pw n menu kf sf s sh) = map fst ?kept"
    by (simp add: admin_dashboard_listing [OF assms] Let_def shown_indices_def card_for_def comp_def)
  then show ?thesis
    by (simp only: set_map set_filter_zip_upt) force
qed

subsection \<open>The example worksheet\<close>

lemma example_get_all_values: "get_all_values example_sheet = example_sheet"
  by (simp add: get_all_values_def example_sheet_def example_rows pad_to_def)

lemma example_header_ok: "header_ok (hd (get_all_values example_sheet))"
  by (simp add: example_get_all_values) (simp add: example_sheet_def example_header_def header_ok_def)

lemma example_requests:
  "requests example_sheet =
     [request_asha, request_bob, request_chitra, request_dev, request_asha_k]"
  by (simp add: requests_def example_get_all_values) (simp add: example_sheet_def)

lemma example_gate: "admin_gate example_secrets ''s3cret'' ''alice'' = Inr None"
  by (simp add: admin_gate_def is_admin_def secrets_get_def example_secrets_def strip_def
      isspace_def)

lemma example_requests_length: "length (requests example_sheet) = 5"
  by (simp add: example_requests)

lemma example_employees:
  "employee_name_of (requests example_sheet ! 0) = ''Asha''"
  "employee_id_of (requests example_sheet ! 0) = ''E7''"
  "employee_name_of (requests example_sheet ! 1) = ''Bob''"
  "employee_id_of (requests example_sheet ! 1) = ''E12''"
  "employee_name_of (requests example_sheet ! Suc 0) = ''Bob''"
  "employee_id_of (requests example_sheet ! Suc 0) = ''E12''"
  "employee_name_of (requests example_sheet ! 4) = ''asha k''"
  "employee_id_of (requests example_sheet ! 4) = ''E50''"
  by (simp_all add: example_requests employee_name_of_def employee_id_of_def example_rows)

subsection \<open>The search of the Admin Dashboard\<close>

text \<open>
  Claim C6, as stated, fails: the search text " " (one space) is not empty, and it does
  not occur in the employee name "Bob" nor in the employee id "E12" of the second
  request of the example worksheet, yet the listing retains that request. Line 153
  applies the search only when \<open>search_text.strip()\<close> is not empty.
\<close>

theorem search_blank_counterexample:
  "1 \<in> set (shown_indices (admin_dashboard no_engine parse_written example_secrets ''s3cret'' ''alice''
         All_Requests ''All'' ''All'' '' '' example_sheet))
   \<and> '' '' \<noteq> []
   \<and> employee_name_of (requests example_sheet ! 1) = ''Bob''
   \<and> employee_id_of (requests example_sheet ! 1) = ''E12''
   \<and> \<not> ci_substring '' '' ''Bob'' \<and> \<not> ci_substring '' '' ''E12''"
proof -
  have s: "strip '' '' = []" by (simp add: strip_def isspace_def)
  have len: "2 \<le> length example_sheet" by (simp add: example_sheet_def)
  have "set (shown_indices (admin_dashboard no_engine parse_written example_secrets ''s3cret'' ''alice''
         All_Requests ''All'' ''All'' '' '' example_sheet)) = {i. i < 5}"
    using shown_indices_listing [OF example_gate len example_header_ok, of "'' ''" no_engine "search_ci []"
        parse_written All_Requests "''All''" "''All''"]
    by (simp add: s listed_def example_requests_length)
  moreover have "\<not> search_ci '' '' ''Bob''" "\<not> search_ci '' '' ''E12''"
    by code_simp+
  then have "\<not> ci_substring '' '' ''Bob''" "\<not> ci_substring '' '' ''E12''"
    by (simp_all add: search_ci_iff)
  ultimately show ?thesis
    by (simp add: example_employees)
qed

text \<open>
  Claim C6, amended. For every search text \<open>s\<close> that has a character other than
  whitespace and has none of the special characters of regular expressions, and for
  every stored request, the Admin Dashboard lists the request if and only if it passes
  the view and the two select boxes and \<open>s\<close> occurs, up to the case of the letters, as a
  substring of its employee name or of its employee id; and the listing does not fail.
  With the view "All Requests" and both select boxes at "All", the request is listed
  if and only if \<open>s\<close> so occurs. (A search text with a special character is compiled as
  a regular expression; the statement leaves that case open.)
\<close>

theorem search_lists_ci_substring:
  assumes gate: "admin_gate secrets password admin_name = Inr None"
    and hdr: "header_ok (hd (get_all_values sh))"
    and s: "strip s \<noteq> []" and lit: "\<forall>c \<in> set s. c \<notin> set re_special"
  shows "(\<exists>page. admin_dashboard re strptime secrets password admin_name
                   menu kitchen_filter status_filter s sh = Inr page)
       \<and> set (shown_indices (admin_dashboard re strptime secrets password admin_name
                   menu kitchen_filter status_filter s sh))
         = {i. i < length (requests sh)
               \<and> (menu = Pending_Requests \<longrightarrow> status_of (requests sh ! i) = ''Pending'')
               \<and> (kitchen_filter \<noteq> ''All'' \<longrightarrow> site_of (requests sh ! i) = kitchen_filter)
               \<and> (status_filter \<noteq> ''All'' \<longrightarrow> status_of (requests sh ! i) = status_filter)
               \<and> (ci_substring s (employee_name_of (requests sh ! i))
                    \<or> ci_substring s (employee_id_of (requests sh ! i)))}"
proof (cases "2 \<le> length sh")
  case True
  have comp: "strip s \<noteq> [] \<Longrightarrow> re_compile_ignorecase re s = Inr (search_ci s)"
    using re_compile_literal [OF lit] by simp
  have "\<exists>page. admin_dashboard re strptime secrets password admin_name
                   menu kitchen_filter status_filter s sh = Inr page"
    by (simp add: admin_dashboard_listing [OF gate True hdr comp] Let_def)
  moreover note shown_indices_listing [OF gate True hdr comp]
  ultimately show ?thesis
    using s by (simp add: listed_def search_ci_iff)
next
  case False
  then have "length (get_all_values sh) < 2" by (simp add: length_get_all_values)
  then have res: "admin_dashboard re strptime secrets password admin_name
                   menu kitchen_filter status_filter s sh = Inr (Notice (Info ''No requests found.''))"
    using gate by (simp add: admin_dashboard_def admin_panel_def)
  have "requests sh = []"
    using False by (cases sh) (auto simp: requests_def get_all_values_def Suc_le_eq)
  then show ?thesis by (simp add: res shown_indices_def)
qed

theorem search_lists_witness:
  "1 \<in> set (shown_indices (admin_dashboard no_engine parse_written example_secrets ''s3cret'' ''alice''
         All_Requests ''All'' ''All'' ''e1'' example_sheet))
   \<and> 0 \<notin> set (shown_indices (admin_dashboard no_engine parse_written example_secrets ''s3cret'' ''alice''
         All_Requests ''All'' ''All'' ''e1'' example_sheet))
   \<and> 4 \<in> set (shown_indices (admin_dashboard no_engine parse_written example_secrets ''s3cret'' ''alice''
         All_Requests ''All'' ''All'' ''ASHA'' example_sheet))"
proof -
  have s1: "strip ''e1'' \<noteq> []" "strip ''ASHA'' \<noteq> []"
    by (simp_all add: strip_def isspace_def)
  have l1: "\<forall>c \<in> set ''e1''. c \<notin> set re_special" "\<forall>c \<in> set ''ASHA''. c \<notin> set re_special"
    by (simp_all add: re_special_def)
  have "search_ci ''e1'' ''E12''" "\<not> search_ci ''e1'' ''Asha''"
    "\<not> search_ci ''e1'' ''E7''" "search_ci ''ASHA'' ''asha k''"
    by code_simp+
  then have m: "ci_substring ''e1'' ''E12''" "\<not> ci_substring ''e1'' ''Asha''"
    "\<not> ci_substring ''e1'' ''E7''" "ci_substring ''ASHA'' ''asha k''"
    by (simp_all add: search_ci_iff)
  show ?thesis
    using search_lists_ci_substring [OF example_gate example_header_ok s1(1) l1(1),
        of no_engine parse_written All_Requests "''All''" "''All''"]
      search_lists_ci_substring [OF example_gate example_header_ok s1(2) l1(2),
        of no_engine parse_written All_Requests "''All''" "''All''"]
    by (simp add: example_requests_length example_employees m)
qed

subsection \<open>The request time of a card\<close>

lemma mem_nonempty: "x \<in> set xs \<Longrightarrow> xs \<noteq> []"
  by auto

text \<open>
  Claim C9. In the listing of the Admin Dashboard, a request whose stored timestamp
  does not parse in the expected format (\<open>strptime\<close> raises, here \<open>None\<close>) and that
  passes the filters is listed all the same, and its card shows the stored string
  itself as the request time: the listing does not fail.
\<close>

theorem malformed_timestamp_shown_raw:
  assumes gate: "admin_gate secrets password admin_name = Inr None"
    and hdr: "header_ok (hd (get_all_values sh))"
    and comp: "strip search_text \<noteq> [] \<longrightarrow> re_compile_ignorecase re search_text = Inr found"
    and i: "i < length (requests sh)"
    and lst: "listed menu kitchen_filter status_filter (strip search_text \<noteq> []) found (requests sh ! i)"
    and bad: "strptime (timestamp_of (requests sh ! i)) = None"
  shows "\<exists>cards. admin_dashboard re strptime secrets password admin_name
                   menu kitchen_filter status_filter search_text sh = Inr (Content cards)
           \<and> (\<exists>c \<in> set cards. card_index c = i \<and> card_row c = requests sh ! i
                 \<and> request_time_str c = timestamp_of (requests sh ! i))"
proof -
  let ?kept = "filter (\<lambda>e. listed menu kitchen_filter status_filter (strip search_text \<noteq> []) found (snd e))
                   (zip [0..<length (requests sh)] (requests sh))"
  have len: "2 \<le> length sh"
    using i by (simp add: requests_def length_get_all_values)
  have mem: "(i, requests sh ! i) \<in> set ?kept"
    using i lst by (simp only: set_filter_zip_upt) auto
  have ne: "?kept \<noteq> []"
    using mem by (rule mem_nonempty)
  have res: "admin_dashboard re strptime secrets password admin_name
                   menu kitchen_filter status_filter search_text sh
             = Inr (Content (map (card_for strptime) ?kept))"
    using admin_dashboard_listing [OF gate len hdr, of search_text re found] comp ne
    by (simp add: Let_def)
  have c: "card_for strptime (i, requests sh ! i) \<in> set (map (card_for strptime) ?kept)"
    unfolding set_map using mem by (rule imageI)
  have "card_index (card_for strptime (i, requests sh ! i)) = i"
    "card_row (card_for strptime (i, requests sh ! i)) = requests sh ! i"
    "request_time_str (card_for strptime (i, requests sh ! i)) = timestamp_of (requests sh ! i)"
    using bad by (simp_all add: card_for_def request_time_def)
  with c res show ?thesis by blast
qed

lemma example_listed_3:
  "listed All_Requests ''All'' ''All'' False (search_ci []) (requests example_sheet ! 3)"
  by (simp add: listed_def)

lemma example_timestamp_3: "timestamp_of (requests example_sheet ! 3) = ''not a time''"
  by (simp add: example_requests timestamp_of_def request_dev_def)

lemma parse_written_not_a_time: "parse_written ''not a time'' = None"
  by (simp add: parse_written_def)

theorem malformed_timestamp_witness:
  "\<exists>cards. admin_dashboard no_engine parse_written example_secrets ''s3cret'' ''alice''
             All_Requests ''All'' ''All'' [] example_sheet = Inr (Content cards)
     \<and> (\<exists>c \<in> set cards. card_index c = 3 \<and> request_time_str c = ''not a time'')"
proof -
  have s: "strip [] = []" by (simp add: strip_def)
  have "\<exists>cards. admin_dashboard no_engine parse_written example_secrets ''s3cret'' ''alice''
             All_Requests ''All'' ''All'' [] example_sheet = Inr (Content cards)
     \<and> (\<exists>c \<in> set cards. card_index c = 3 \<and> card_row c = requests example_sheet ! 3
           \<and> request_time_str c = timestamp_of (requests example_sheet ! 3))"
    by (rule malformed_timestamp_shown_raw [OF example_gate example_header_ok, where found = "search_ci []"])
       (simp_all add: s example_requests_length example_listed_3 example_timestamp_3
          parse_written_not_a_time)
  then show ?thesis by (auto simp: example_timestamp_3)
qed

subsection \<open>The row that a button writes\<close>

text \<open>
  Claim C10. For every combination of view, kitchen filter, status filter and search
  text: a card that the Admin Dashboard shows carries the label \<open>i\<close> of a request in the
  full listing and shows that request's row, which is row \<open>i + 2\<close> of the worksheet;
  and each of its three buttons (Approve, Reject, Save Comment) changes cells of row
  \<open>i + 2\<close> only (columns 6 and 7, or column 8) and no other cell of the worksheet.
\<close>

theorem admin_actions_target_displayed_row:
  assumes "admin_dashboard re strptime secrets password admin_name
             menu kitchen_filter status_filter search_text sh = Inr (Content cards)"
    and "c \<in> set cards"
  shows "card_index c < length (requests sh)
       \<and> card_row c = requests sh ! card_index c
       \<and> (\<forall>k < length (card_row c). card_row c ! k = cell_at sh (card_index c + 2) (k + 1))
       \<and> (\<forall>r col. cell_at (fst (admin_action admin_name (card_index c) Approve sh)) r col =
            (if r = card_index c + 2 \<and> col = 6 then ''Approved''
             else if r = card_index c + 2 \<and> col = 7 then admin_name
             else cell_at sh r col))
       \<and> (\<forall>r col. cell_at (fst (admin_action admin_name (card_index c) Reject sh)) r col =
            (if r = card_index c + 2 \<and> col = 6 then ''Rejected''
             else if r = card_index c + 2 \<and> col = 7 then admin_name
             else cell_at sh r col))
       \<and> (\<forall>r col comment.
            cell_at (fst (admin_action admin_name (card_index c) (Save_Comment comment) sh)) r col =
            (if r = card_index c + 2 \<and> col = 8 then comment else cell_at sh r col))
       \<and> (\<forall>a. length (fst (admin_action admin_name (card_index c) a sh)) = length sh)"
proof -
  note row = admin_card_is_sheet_row [OF assms]
  have le: "card_index c + 2 \<le> length sh"
    using row(1) by (simp add: length_get_all_values)
  have len: "length (fst (admin_action admin_name (card_index c) a sh)) = length sh" for a
    using le by (cases a) (simp_all add: admin_action_def length_update_cell)
  show ?thesis
    using row len by (simp add: admin_action_def cell_at_update_cell requests_def)
qed

lemma upt_0_5: "[0..<5] = [0, 1, 2, 3, 4]"
  by (simp add: upt_rec)

lemma example_pending_hsr:
  "admin_dashboard no_engine parse_written example_secrets ''s3cret'' ''alice''
      Pending_Requests ''HSR01'' ''All'' [] example_sheet
    = Inr (Content [card_for parse_written (2, request_chitra)])"
proof -
  have s: "strip [] = []" by (simp add: strip_def)
  have len: "2 \<le> length example_sheet" by (simp add: example_sheet_def)
  have kept: "filter (\<lambda>e. listed Pending_Requests ''HSR01'' ''All'' False (search_ci []) (snd e))
        (zip [0..<5] (requests example_sheet)) = [(2, request_chitra)]"
    by (simp add: example_requests upt_0_5 listed_def status_of_def site_of_def example_rows)
  show ?thesis
    using admin_dashboard_listing [OF example_gate len example_header_ok, of "[]" no_engine
        "search_ci []" parse_written Pending_Requests "''HSR01''" "''All''"]
    by (simp add: s example_requests_length kept)
qed

theorem admin_actions_witness:
  "\<exists>c. admin_dashboard no_engine parse_written example_secrets ''s3cret'' ''alice''
          Pending_Requests ''HSR01'' ''All'' [] example_sheet = Inr (Content [c])
     \<and> card_index c = 2
     \<and> card_row c ! 2 = ''Chitra''
     \<and> cell_at example_sheet 4 3 = ''Chitra''
     \<and> cell_at (fst (admin_action ''alice'' 2 Approve example_sheet)) 4 6 = ''Approved''
     \<and> cell_at (fst (admin_action ''alice'' 2 Approve example_sheet)) 4 7 = ''alice''
     \<and> cell_at (fst (admin_action ''alice'' 2 (Save_Comment ''seen'') example_sheet)) 4 8 = ''seen''
     \<and> cell_at (fst (admin_action ''alice'' 2 Reject example_sheet)) 2 6 = ''Pending''"
proof -
  let ?c = "card_for parse_written (2, request_chitra)"
  have idx: "card_index ?c = 2" and row: "card_row ?c ! 2 = ''Chitra''"
    and len: "length (card_row ?c) = 8"
    by (simp_all add: card_for_def request_chitra_def)
  have old: "cell_at example_sheet 2 6 = ''Pending''"
    by (simp add: cell_at_def example_sheet_def example_rows)
  have cur: "cell_at example_sheet 4 3 = ''Chitra''"
    by (simp add: cell_at_def example_sheet_def example_rows)
  have mem: "?c \<in> set [?c]" by simp
  show ?thesis
    using admin_actions_target_displayed_row [OF example_pending_hsr mem] idx row old cur
    by (intro exI [of _ ?c]) (simp add: example_pending_hsr)
qed

subsection \<open>The values of the status column\<close>

lemma pad_to_id: "n \<le> length xs \<Longrightarrow> pad_to n d xs = xs"
  by (simp add: pad_to_def)

lemma update_cell_in_range:
  assumes "r \<le> length sh" and "c \<le> length (sh ! (r - 1))"
  shows "update_cell r c v sh = sh[r - 1 := (sh ! (r - 1))[c - 1 := v]]"
  using assms by (simp add: update_cell_def Let_def pad_to_id)

lemma status_ok_append:
  assumes "status_ok sh" and "length q = 8" and "q ! 5 \<in> {''Pending'', ''Approved'', ''Rejected''}"
  shows "status_ok (sh @ [q])"
  using assms by (auto simp: status_ok_def nth_append less_Suc_eq)

lemma status_ok_update:
  assumes ok: "status_ok sh" and i: "i + 2 \<le> length sh"
    and q: "length q = 8" "q ! 5 \<in> {''Pending'', ''Approved'', ''Rejected''}"
  shows "status_ok (sh[i + 1 := q])"
  using assms by (auto simp: status_ok_def nth_list_update)

lemma status_ok_admin_action:
  assumes ok: "status_ok sh" and i: "i + 2 \<le> length sh"
  shows "status_ok (fst (admin_action n i a sh))"
proof -
  let ?q = "sh ! (i + 1)"
  have q: "length ?q = 8" "?q ! 5 \<in> {''Pending'', ''Approved'', ''Rejected''}"
    using ok i by (auto simp: status_ok_def)
  show ?thesis
  proof (cases a)
    case Approve
    have "fst (admin_action n i a sh) = sh[i + 1 := ?q[5 := ''Approved'', 6 := n]]"
      using i q(1)
      by (simp add: Approve admin_action_def update_cell_in_range)
    then show ?thesis using status_ok_update [OF ok i, of "?q[5 := ''Approved'', 6 := n]"] q
      by simp
  next
    case Reject
    have "fst (admin_action n i a sh) = sh[i + 1 := ?q[5 := ''Rejected'', 6 := n]]"
      using i q(1)
      by (simp add: Reject admin_action_def update_cell_in_range)
    then show ?thesis using status_ok_update [OF ok i, of "?q[5 := ''Rejected'', 6 := n]"] q
      by simp
  next
    case (Save_Comment x)
    have "fst (admin_action n i a sh) = sh[i + 1 := ?q[7 := x]]"
      using i q(1)
      by (simp add: Save_Comment admin_action_def update_cell_in_range)
    then show ?thesis using status_ok_update [OF ok i, of "?q[7 := x]"] q
      by simp
  qed
qed

lemma status_ok_submit:
  assumes "status_ok (sheet w)"
  shows "status_ok (sheet (fst (submit_request t1 fid t2 k n e p w)))"
proof (cases "p = None \<or> k = ''--Select--'' \<or> n = [] \<or> e = []")
  case True
  then show ?thesis using assms
    by (auto simp: submit_request_def split: option.splits)
next
  case False
  then show ?thesis using assms
    by (auto simp: submit_request_def append_row_def split: option.splits prod.splits
        intro!: status_ok_append)
qed

lemma status_ok_step:
  assumes "app_step re sp secrets w w'" and "status_ok (sheet w)"
  shows "status_ok (sheet w')"
  using assms
proof (cases rule: app_step.cases)
  case (submit t_upload file_id t_row kitchen emp_name emp_id picture)
  then show ?thesis using assms(2) by (simp add: status_ok_submit)
next
  case (decide password admin_name menu kitchen_filter status_filter search_text cards c a)
  have "card_index c + 2 \<le> length (sheet w)"
    using admin_card_is_sheet_row(1) [OF decide(2,3)] by (simp add: length_get_all_values)
  then show ?thesis using decide(1) assms(2) by (simp add: status_ok_admin_action)
qed

lemma reachable_status_ok:
  "reachable re sp secrets header w \<Longrightarrow> status_ok (sheet w)"
proof (induction rule: reachable.induct)
  case start
  then show ?case by (simp add: status_ok_def)
next
  case (step w w')
  then show ?case by (auto intro: status_ok_step)
qed

lemma status_ok_requests:
  assumes "status_ok sh" and "q \<in> set (requests sh)"
  shows "status_of q \<in> {''Pending'', ''Approved'', ''Rejected''}"
proof -
  from assms(2) obtain j where j: "j < length (tl (get_all_values sh))"
      "q = tl (get_all_values sh) ! j"
    by (auto simp: requests_def in_set_conv_nth)
  then have lt: "j + 1 < length sh" by (simp add: length_get_all_values)
  have "q = get_all_values sh ! (j + 1)" using j by (simp add: nth_tl)
  then have q: "q = pad_to (fold max (map length sh) 0) [] (sh ! (j + 1))"
    using lt by (simp add: get_all_values_def)
  have "length (sh ! (j + 1)) = 8" "sh ! (j + 1) ! 5 \<in> {''Pending'', ''Approved'', ''Rejected''}"
    using assms(1) lt by (auto simp: status_ok_def)
  then show ?thesis by (simp add: q status_of_def pad_to_def nth_append)
qed

lemma cell_at_append_old: "r \<le> length sh \<Longrightarrow> cell_at (sh @ [q]) r c = cell_at sh r c"
  by (auto simp: cell_at_def nth_append)

lemma cell_at_append_new:
  "c \<le> length q \<Longrightarrow> 1 \<le> c \<Longrightarrow> cell_at (sh @ [q]) (Suc (length sh)) c = q ! (c - 1)"
  by (auto simp: cell_at_def nth_append)

lemma step_status_writes:
  assumes "app_step re sp secrets w w'"
  shows "(\<forall>r. 2 \<le> r \<and> r \<le> length (sheet w) \<longrightarrow>
            cell_at (sheet w') r 6 = cell_at (sheet w) r 6
            \<or> cell_at (sheet w') r 6 \<in> {''Approved'', ''Rejected''})
       \<and> (\<forall>r. length (sheet w) < r \<and> r \<le> length (sheet w') \<longrightarrow>
            cell_at (sheet w') r 6 = ''Pending'')"
  using assms
proof (cases rule: app_step.cases)
  case (submit t_upload file_id t_row kitchen emp_name emp_id picture)
  show ?thesis
  proof (cases "picture = None \<or> kitchen = ''--Select--'' \<or> emp_name = [] \<or> emp_id = []")
    case True
    then have "w' = w" using submit by (auto simp: submit_request_def split: option.splits)
    then show ?thesis by auto
  next
    case False
    then obtain q where q: "sheet w' = sheet w @ [q]" "length q = 8" "q ! 5 = ''Pending''"
      using submit
      by (auto simp: submit_request_def append_row_def split: option.splits prod.splits)
    show ?thesis
      using q by (auto simp: cell_at_append_old cell_at_def nth_append)
  qed
next
  case (decide password admin_name menu kitchen_filter status_filter search_text cards c a)
  have le: "card_index c + 2 \<le> length (sheet w)"
    using admin_card_is_sheet_row(1) [OF decide(2,3)] by (simp add: length_get_all_values)
  have len: "length (sheet w') = length (sheet w)"
    using le decide(1) by (cases a) (simp_all add: admin_action_def length_update_cell)
  show ?thesis
    using decide(1) len by (cases a) (auto simp: admin_action_def cell_at_update_cell)
qed

text \<open>
  Claim C8. In every state that the application reaches from a worksheet with the
  header row only, the status of every request is "Pending", "Approved" or
  "Rejected". A step from such a state leaves the status cell (column 6) of each
  existing row as it was or writes "Approved" or "Rejected" there (so a later
  decision may replace an earlier one), and the status cell of a row that the step
  adds is "Pending".
\<close>

theorem reachable_status_values:
  assumes "reachable re strptime secrets header w"
  shows "(\<forall>q \<in> set (requests (sheet w)).
            status_of q \<in> {''Pending'', ''Approved'', ''Rejected''})
       \<and> (\<forall>w'. app_step re strptime secrets w w' \<longrightarrow>
            (\<forall>r. 2 \<le> r \<and> r \<le> length (sheet w) \<longrightarrow>
               cell_at (sheet w') r 6 = cell_at (sheet w) r 6
               \<or> cell_at (sheet w') r 6 \<in> {''Approved'', ''Rejected''})
            \<and> (\<forall>r. length (sheet w) < r \<and> r \<le> length (sheet w') \<longrightarrow>
               cell_at (sheet w') r 6 = ''Pending''))"
  using status_ok_requests [OF reachable_status_ok [OF assms]] step_status_writes
  by blast


lemma example_world_1_sheet: "sheet example_world_1 = [example_header, request_asha]"
proof -
  have ts: "strftime_row example_time = ''2024-01-15 09:05:03''"
    by code_simp
  show ?thesis
    by (simp add: example_world_1_def submit_request_def save_image_to_drive_def fstring_of_def
        append_row_def example_world_def ts request_asha_def)
qed

lemma example_world_1_listing:
  "admin_dashboard no_engine parse_written example_secrets ''s3cret'' ''alice''
      All_Requests ''All'' ''All'' [] (sheet example_world_1)
    = Inr (Content [card_for parse_written (0, request_asha)])"
proof -
  have s: "strip [] = []" by (simp add: strip_def)
  have gav: "get_all_values [example_header, request_asha] = [example_header, request_asha]"
    by (simp add: get_all_values_def example_rows pad_to_def)
  have hdr: "header_ok (hd (get_all_values [example_header, request_asha]))"
    by (simp add: gav) (simp add: example_header_def header_ok_def)
  have len: "2 \<le> length [example_header, request_asha]" by simp
  have req: "requests [example_header, request_asha] = [request_asha]"
    by (simp add: requests_def gav)
  show ?thesis
    using admin_dashboard_listing [OF example_gate len hdr, of "[]" no_engine
        "search_ci []" parse_written All_Requests "''All''" "''All''"]
    by (simp add: s example_world_1_sheet req listed_def)
qed

lemma example_world_2_reachable:
  "reachable no_engine parse_written example_secrets example_header example_world_2"
proof -
  have "reachable no_engine parse_written example_secrets example_header example_world"
    unfolding example_world_def by (rule reachable.start)
  moreover have "app_step no_engine parse_written example_secrets example_world example_world_1"
    unfolding example_world_1_def by (rule app_step.submit)
  ultimately have r1: "reachable no_engine parse_written example_secrets example_header example_world_1"
    by (rule reachable.step)
  have "card_for parse_written (0, request_asha) \<in> set [card_for parse_written (0, request_asha)]"
    by simp
  from app_step.decide [OF example_world_1_listing this, of Approve]
  have "app_step no_engine parse_written example_secrets example_world_1 example_world_2"
    by (simp add: example_world_2_def card_for_def)
  with r1 show ?thesis by (rule reachable.step)
qed

lemma example_world_2_requests:
  "requests (sheet example_world_2)
     = [[''2024-01-15 09:05:03'', ''WFD01'', ''Asha'', ''E7'',
         ''https://drive.google.com/uc?export=view&id=f1'', ''Approved'', ''alice'', []]]"
  by (simp add: example_world_2_def example_world_1_sheet admin_action_def
      update_cell_in_range requests_def get_all_values_def example_rows pad_to_def)

theorem reachable_status_witness:
  "reachable no_engine parse_written example_secrets example_header example_world_2
   \<and> requests (sheet example_world_2)
     = [[''2024-01-15 09:05:03'', ''WFD01'', ''Asha'', ''E7'',
         ''https://drive.google.com/uc?export=view&id=f1'', ''Approved'', ''alice'', []]]
   \<and> status_of (hd (requests (sheet example_world_2)))
       \<in> {''Pending'', ''Approved'', ''Rejected''}"
  using reachable_status_values [OF example_world_2_reachable] example_world_2_reachable
  by (simp add: example_world_2_requests)

subsection \<open>Assigning a column\<close>

lemma fst_in_set_zip: "x \<in> set (zip xs ys) \<Longrightarrow> fst x \<in> set xs"
  using set_zip_leftD [of "fst x" "snd x" xs ys] by simp

lemma column_index_Inr_D:
  assumes "column_index cols name = Inr j"
  shows "j < length cols \<and> cols ! j = name"
proof -
  from assms have "col_positions cols name = [j]"
    by (auto simp: column_index_def split: list.splits)
  then have "j \<in> set (filter (\<lambda>j. cols ! j = name) [0..<length cols])"
    by (simp add: col_positions_def)
  then show ?thesis by simp
qed

lemma col_positions_append_other:
  assumes "name' \<noteq> name"
  shows "col_positions (cols @ [name]) name' = col_positions cols name'"
proof -
  have "filter (\<lambda>j. (cols @ [name]) ! j = name') [0..<length cols]
      = filter (\<lambda>j. cols ! j = name') [0..<length cols]"
    by (intro filter_cong) (auto simp: nth_append)
  then show ?thesis using assms by (simp add: col_positions_def)
qed

lemma col_positions_append_new:
  assumes "name \<notin> set cols"
  shows "col_positions (cols @ [name]) name = [length cols]"
proof -
  have "filter (\<lambda>j. (cols @ [name]) ! j = name) [0..<length cols] = []"
    using assms by (auto simp: filter_empty_conv nth_append)
  then show ?thesis by (simp add: col_positions_def)
qed

lemma replace_column_row:
  assumes "distinct cols" and "k < length cols" and "cols ! k = name"
    and "length r = length cols"
  shows "map (\<lambda>j. if cols ! j = name then v else r ! j) [0..<length r] = r[k := v]"
proof (rule nth_equalityI)
  show "length (map (\<lambda>j. if cols ! j = name then v else r ! j) [0..<length r])
      = length (r[k := v])" by simp
next
  fix j assume "j < length (map (\<lambda>j. if cols ! j = name then v else r ! j) [0..<length r])"
  then have j: "j < length r" by simp
  have "cols ! j = name \<longleftrightarrow> j = k"
    using assms j by (auto simp: nth_eq_iff_index_eq)
  then show "map (\<lambda>j. if cols ! j = name then v else r ! j) [0..<length r] ! j = r[k := v] ! j"
    using j by (auto simp: nth_list_update)
qed

lemma set_column_existing:
  assumes wf: "wf_frame df" and k: "k < length (columns df)" "columns df ! k = name"
  shows "set_column df name vals
           = df\<lparr>entries := map (\<lambda>x. (fst (fst x), (snd (fst x))[k := snd x]))
                               (zip (entries df) vals)\<rparr>"
proof -
  have mem: "name \<in> set (columns df)" using k by auto
  have "map (\<lambda>x. (fst (fst x),
                    map (\<lambda>j. if columns df ! j = name then snd x else snd (fst x) ! j)
                      [0..<length (snd (fst x))]))
            (zip (entries df) vals)
      = map (\<lambda>x. (fst (fst x), (snd (fst x))[k := snd x])) (zip (entries df) vals)"
  proof (rule map_cong [OF refl])
    fix x assume "x \<in> set (zip (entries df) vals)"
    then have "fst x \<in> set (entries df)" by (rule fst_in_set_zip)
    then have "length (snd (fst x)) = length (columns df)" using wf by (auto simp: wf_frame_def)
    from replace_column_row [OF _ k this, of "snd x"] wf
    show "(fst (fst x),
            map (\<lambda>j. if columns df ! j = name then snd x else snd (fst x) ! j)
              [0..<length (snd (fst x))])
        = (fst (fst x), (snd (fst x))[k := snd x])"
      by (simp add: wf_frame_def)
  qed
  then show ?thesis using mem by (simp add: set_column_def case_prod_beta)
qed

lemma set_column_new:
  assumes "name \<notin> set (columns df)"
  shows "set_column df name vals
           = df\<lparr>columns := columns df @ [name],
                entries := map (\<lambda>x. (fst (fst x), snd (fst x) @ [snd x])) (zip (entries df) vals)\<rparr>"
  using assms by (simp add: set_column_def case_prod_beta)

lemma wf_frame_set_column:
  assumes wf: "wf_frame df"
  shows "wf_frame (set_column df name vals)"
proof (cases "name \<in> set (columns df)")
  case True
  then obtain k where k: "k < length (columns df)" "columns df ! k = name"
    by (auto simp: in_set_conv_nth)
  show ?thesis
    using wf by (auto simp: set_column_existing [OF wf k] wf_frame_def dest!: fst_in_set_zip)
next
  case False
  then show ?thesis
    using wf by (auto simp: set_column_new wf_frame_def dest!: fst_in_set_zip)
qed

lemma map_fst_zip_same_length: "length ys = length xs \<Longrightarrow> map fst (zip xs ys) = xs"
  by simp

lemma map_snd_zip_same_length: "length ys = length xs \<Longrightarrow> map snd (zip xs ys) = ys"
  by simp

lemma length_entries_set_column:
  assumes "length vals = length (entries df)"
  shows "length (entries (set_column df name vals)) = length (entries df)"
  using assms by (simp add: set_column_def)

lemma get_column_set_column_same:
  assumes wf: "wf_frame df" and len: "length vals = length (entries df)"
  shows "get_column (set_column df name vals) name = Inr vals"
proof (cases "name \<in> set (columns df)")
  case True
  then obtain k where k: "k < length (columns df)" "columns df ! k = name"
    by (auto simp: in_set_conv_nth)
  have ci: "column_index (columns df) name = Inr k"
    using wf k by (auto simp: wf_frame_def intro: column_index_distinct)
  have "map (\<lambda>x. (snd (fst x))[k := snd x] ! k) (zip (entries df) vals)
      = map snd (zip (entries df) vals)"
  proof (rule map_cong [OF refl])
    fix x assume "x \<in> set (zip (entries df) vals)"
    then have "fst x \<in> set (entries df)" by (rule fst_in_set_zip)
    then have "k < length (snd (fst x))" using wf k by (auto simp: wf_frame_def)
    then show "(snd (fst x))[k := snd x] ! k = snd x" by simp
  qed
  then show ?thesis
    using len by (simp add: set_column_existing [OF wf k] get_column_def ci comp_def case_prod_beta)
next
  case False
  have ci: "column_index (columns df @ [name]) name = Inr (length (columns df))"
    by (simp add: column_index_def col_positions_append_new [OF False])
  have "map (\<lambda>x. (snd (fst x) @ [snd x]) ! length (columns df)) (zip (entries df) vals)
      = map snd (zip (entries df) vals)"
  proof (rule map_cong [OF refl])
    fix x assume "x \<in> set (zip (entries df) vals)"
    then have "fst x \<in> set (entries df)" by (rule fst_in_set_zip)
    then have "length (snd (fst x)) = length (columns df)" using wf by (auto simp: wf_frame_def)
    then show "(snd (fst x) @ [snd x]) ! length (columns df) = snd x"
      by (simp add: nth_append)
  qed
  then show ?thesis
    using len by (simp add: set_column_new [OF False] get_column_def ci comp_def case_prod_beta)
qed

lemma get_column_set_column_other:
  assumes wf: "wf_frame df" and len: "length vals = length (entries df)"
    and ne: "name' \<noteq> name"
  shows "get_column (set_column df name vals) name' = get_column df name'"
proof (cases "column_index (columns df) name'")
  case (Inl e)
  have "column_index (columns (set_column df name vals)) name' = Inl e"
    using Inl ne by (auto simp: set_column_def column_index_def col_positions_append_other)
  then show ?thesis using Inl by (simp add: get_column_def)
next
  case (Inr j)
  note j = column_index_Inr_D [OF Inr]
  have ci: "column_index (columns (set_column df name vals)) name' = Inr j"
    using Inr ne by (auto simp: set_column_def column_index_def col_positions_append_other)
  have vals_eq: "map (\<lambda>e. snd e ! j) (entries (set_column df name vals))
      = map (\<lambda>e. snd e ! j) (entries df)"
  proof (cases "name \<in> set (columns df)")
    case True
    then obtain k where k: "k < length (columns df)" "columns df ! k = name"
      by (auto simp: in_set_conv_nth)
    have jk: "j \<noteq> k" using j k ne by auto
    have "map (\<lambda>x. (snd (fst x))[k := snd x] ! j) (zip (entries df) vals)
        = map (\<lambda>x. snd (fst x) ! j) (zip (entries df) vals)"
      using jk by (intro map_cong [OF refl]) simp
    also have "\<dots> = map (\<lambda>e. snd e ! j) (map fst (zip (entries df) vals))"
      by (simp add: comp_def)
    also have "\<dots> = map (\<lambda>e. snd e ! j) (entries df)"
      using len by simp
    finally show ?thesis
      by (simp add: set_column_existing [OF wf k] comp_def)
  next
    case False
    have "map (\<lambda>x. (snd (fst x) @ [snd x]) ! j) (zip (entries df) vals)
        = map (\<lambda>x. snd (fst x) ! j) (zip (entries df) vals)"
    proof (rule map_cong [OF refl])
      fix x assume "x \<in> set (zip (entries df) vals)"
      then have "fst x \<in> set (entries df)" by (rule fst_in_set_zip)
      then have "length (snd (fst x)) = length (columns df)" using wf by (auto simp: wf_frame_def)
      then show "(snd (fst x) @ [snd x]) ! j = snd (fst x) ! j"
        using j by (simp add: nth_append)
    qed
    also have "\<dots> = map (\<lambda>e. snd e ! j) (map fst (zip (entries df) vals))"
      by (simp add: comp_def)
    also have "\<dots> = map (\<lambda>e. snd e ! j) (entries df)"
      using len by simp
    finally show ?thesis
      by (simp add: set_column_new [OF False] comp_def)
  qed
  show ?thesis using Inr ci vals_eq by (simp add: get_column_def split_def)
qed

subsection \<open>The frame of the Dashboard\<close>

lemma map_filter_cell_text_Str: "List.map_filter cell_text (map Str xs) = xs"
  by (induction xs) (simp_all add: List.map_filter_simps cell_text_def)

lemma to_datetime_Str:
  "to_datetime parse (map Str texts) =
     (case parse texts of
        Inl x \<Rightarrow> Inl x
      | Inr new \<Rightarrow> if length new = length texts then Inr new else Inl Unmodelled)"
  by (cases "parse texts") (simp_all add: to_datetime_def map_filter_cell_text_Str list_ex_iff)

lemma to_datetime_reads:
  assumes "parse texts = Inr (map stamp_cell stamps)" and "length stamps = length texts"
  shows "to_datetime parse (map Str texts) = Inr (map stamp_cell stamps)"
  using assms by (simp add: to_datetime_Str)


lemma dt_stamp_cells: "dt (map stamp_cell stamps) = Inr stamps"
proof -
  have "\<not> list_ex is_Str (map stamp_cell stamps)"
    by (auto simp: list_ex_iff stamp_cell_def split: option.splits)
  moreover have "map cell_time (map stamp_cell stamps) = stamps"
    by (induction stamps) (auto simp: cell_time_def stamp_cell_def split: option.splits)
  ultimately show ?thesis by (simp add: dt_def)
qed



text \<open>The frame of the Dashboard after line 95.\<close>

lemma dashboard_frame:
  fixes stamps :: "datetime option list" and sh :: worksheet
  assumes len: "2 \<le> length sh" and hdr: "header_ok (hd (get_all_values sh))"
    and lens0: "length stamps = length (requests sh)"
  defines "n \<equiv> length (requests sh)"
  defines "df0 \<equiv> \<lparr>columns = hd (get_all_values sh),
                   entries = zip [0..<n] (map (map Str) (requests sh))\<rparr>"
  defines "df \<equiv> set_column df0 ''Timestamp'' (map stamp_cell (stamps))"
  shows "DataFrame (map (map Str) (tl (get_all_values sh))) (hd (get_all_values sh)) = Inr df0"
    and "get_column df0 ''Timestamp'' = Inr (map Str (map timestamp_of (requests sh)))"
    and "wf_frame df0" and "wf_frame df"
    and "columns df = hd (get_all_values sh)"
    and "entries df = map (\<lambda>i. (i, typed_request stamps sh i)) [0..<n]"
    and "get_column df ''Kitchen'' = Inr (map Str (map site_of (requests sh)))"
    and "get_column df ''Timestamp'' = Inr (map stamp_cell (stamps))"
proof -
  let ?h = "hd (get_all_values sh)"
  let ?rows = "requests sh"
  have h8: "length ?h = 8" and hd: "distinct ?h" using hdr by (simp_all add: header_ok_def)
  have rect: "\<forall>r \<in> set ?rows. length r = 8"
    using requests_rect [OF len] h8 by (simp add: requests_def)
  note ci = header_ok_column_index [OF hdr]
  show D: "DataFrame (map (map Str) (tl (get_all_values sh))) ?h = Inr df0"
    using DataFrame_rect [of "map (map Str) ?rows" ?h] rect h8
    by (simp add: df0_def n_def requests_def)
  show wf0: "wf_frame df0"
    using rect h8 hd by (auto simp: wf_frame_def df0_def n_def dest!: set_zip_rightD)
  have len0: "length (entries df0) = n" by (simp add: df0_def n_def)
  have lens: "length stamps = n"
    using lens0 by (simp add: n_def)
  have e0: "entries df0 ! i = (i, map Str (?rows ! i))" if "i < n" for i
    using that by (simp add: df0_def n_def)
  show ts: "get_column df0 ''Timestamp'' = Inr (map Str (map timestamp_of ?rows))"
  proof -
    have "map (\<lambda>e. snd e ! 0) (entries df0) = map Str (map timestamp_of ?rows)"
      using rect by (intro nth_equalityI) (auto simp: len0 n_def e0 timestamp_of_def)
    then show ?thesis by (simp add: get_column_def df0_def ci(1) split_def)
  qed
  show wf: "wf_frame df"
    unfolding df_def by (rule wf_frame_set_column [OF wf0])
  have k0: "0 < length (columns df0)" "columns df0 ! 0 = ''Timestamp''"
    using hdr by (simp_all add: df0_def header_ok_def)
  note sc = set_column_existing [OF wf0 k0, of "map stamp_cell (stamps)"]
  show cols: "columns df = ?h"
    by (simp add: df_def sc) (simp add: df0_def)
  show ent: "entries df = map (\<lambda>i. (i, typed_request stamps sh i)) [0..<n]"
    by (rule nth_equalityI)
       (simp_all add: df_def sc len0 lens e0 typed_request_def)
  have "get_column df ''Kitchen'' = get_column df0 ''Kitchen''"
    unfolding df_def by (rule get_column_set_column_other [OF wf0]) (simp_all add: len0 lens)
  also have "\<dots> = Inr (map Str (map site_of ?rows))"
  proof -
    have "map (\<lambda>e. snd e ! 1) (entries df0) = map Str (map site_of ?rows)"
      using rect by (intro nth_equalityI) (auto simp: len0 n_def e0 site_of_def)
    then show ?thesis by (simp add: get_column_def df0_def ci(2) split_def)
  qed
  finally show "get_column df ''Kitchen'' = Inr (map Str (map site_of ?rows))" .
  show "get_column df ''Timestamp'' = Inr (map stamp_cell (stamps))"
    unfolding df_def by (rule get_column_set_column_same [OF wf0]) (simp add: len0 lens)
qed






subsection \<open>The Ticket Status view\<close>



subsection \<open>The texts of the example worksheets, as pandas reads them\<close>




lemma dated_requests:
  "requests dated_sheet =
     [[''15/01/2024 09:05:03'', ''WFD01'', ''Asha'', ''E7'',
       ''https://drive.google.com/uc?export=view&id=f1'', ''Pending'', [], []],
      [''2024-01-20 10:00:00'', ''WFD01'', ''Bob'', ''E12'',
       ''https://drive.google.com/uc?export=view&id=f2'', ''Pending'', [], []],
      [''20/01/2024 18:30:00'', ''HSR01'', ''Chitra'', ''E31'',
       ''https://drive.google.com/uc?export=view&id=f3'', ''Pending'', [], []]]"
  and dated_header: "hd (get_all_values dated_sheet) = example_header"
  by (simp_all add: requests_def get_all_values_def dated_sheet_def example_header_def pad_to_def)







lemma dated_sites:
  "site_of (requests dated_sheet ! 0) = ''WFD01''"
  "site_of (requests dated_sheet ! Suc 0) = ''WFD01''"
  "site_of (requests dated_sheet ! 2) = ''HSR01''"
  by (simp_all add: dated_requests site_of_def)





subsection \<open>The label of a calendar month\<close>













lemma map_filter_map: "List.map_filter f (map h xs) = List.map_filter (f \<circ> h) xs"
  by (induction xs) (auto simp: List.map_filter_simps split: option.splits)

lemma zip_map_nth:
  assumes "length xs = n" and "length ys = n"
  shows "zip (map f xs) (map g ys) = map (\<lambda>i. (f (xs ! i), g (ys ! i))) [0..<n]"
  using assms by (intro nth_equalityI) simp_all

subsection \<open>The purchase summary\<close>

lemma tanker_summary:
  fixes parse :: datetime_parser and sh :: worksheet
  assumes len: "2 \<le> length sh" and hdr: "header_ok (hd (get_all_values sh))"
    and rd: "parse (map timestamp_of (requests sh)) = Inr (map stamp_cell stamps)"
    and lens: "length stamps = length (requests sh)"
  defines "keys \<equiv> List.map_filter
      (\<lambda>i. map_option (\<lambda>t. (site_of (requests sh ! i), strftime_month t))
             (stamps ! i))
      [0..<length (requests sh)]"
  shows "dashboard parse Tanker_Purchase_Summary kitchen_filter date_filter sh =
     Inr (Content (Summary (map (\<lambda>g. (fst g, snd g, count_list keys g)) (sort (remdups keys)))))"
proof -
  let ?n = "length (requests sh)"
  let ?h = "hd (get_all_values sh)"
  let ?stamps = stamps
  let ?base = "\<lparr>columns = ?h, entries = zip [0..<?n] (map (map Str) (requests sh))\<rparr> :: cell frame"
  define df where "df = set_column ?base ''Timestamp'' (map stamp_cell ?stamps)"
  define mcells where "mcells = dt_strftime_month ?stamps"
  define df1 where "df1 = set_column df ''Month'' mcells"
  note fr0 = dashboard_frame [OF len hdr lens]
  have fr3: "to_datetime parse (map Str (map timestamp_of (requests sh)))
           = Inr (map stamp_cell stamps)"
    using rd lens by (intro to_datetime_reads) simp_all
  have fr1: "DataFrame (map (map Str) (tl (get_all_values sh))) ?h = Inr ?base"
    and fr2: "get_column ?base ''Timestamp'' = Inr (map Str (map timestamp_of (requests sh)))"
    and wf: "wf_frame df"
    and fr7: "entries df = map (\<lambda>i. (i, typed_request stamps sh i)) [0..<?n]"
    and fr8: "get_column df ''Kitchen'' = Inr (map Str (map site_of (requests sh)))"
    and fr9: "get_column df ''Timestamp'' = Inr (map stamp_cell ?stamps)"
    unfolding df_def by (rule fr0)+
  have lenm: "length mcells = length (entries df)"
    by (simp add: mcells_def dt_strftime_month_def fr7 lens)
  have K: "get_column df1 ''Kitchen'' = Inr (map Str (map site_of (requests sh)))"
    unfolding df1_def using get_column_set_column_other [OF wf lenm, of "''Kitchen''" "''Month''"] fr8
    by simp
  have M: "get_column df1 ''Month'' = Inr mcells"
    unfolding df1_def by (rule get_column_set_column_same [OF wf lenm])
  have nt: "\<not> (list_ex is_Time (map Str (map site_of (requests sh))) \<or> list_ex is_Time mcells)"
    by (auto simp: list_ex_iff mcells_def dt_strftime_month_def split: option.splits)
  have keys_eq: "List.map_filter group_key (zip (map Str (map site_of (requests sh))) mcells) = keys"
  proof -
    have "zip (map Str (map site_of (requests sh))) mcells
        = map (\<lambda>i. (Str (site_of (requests sh ! i)),
                     (case ?stamps ! i of Some t \<Rightarrow> Str (strftime_month t) | None \<Rightarrow> Null)))
            [0..<?n]"
      unfolding mcells_def dt_strftime_month_def map_map
      using zip_map_nth [of "requests sh" ?n ?stamps "Str \<circ> site_of"] lens
      by simp
    moreover have "group_key \<circ> (\<lambda>i. (Str (site_of (requests sh ! i)),
                     (case ?stamps ! i of Some t \<Rightarrow> Str (strftime_month t) | None \<Rightarrow> Null)))
        = (\<lambda>i. map_option (\<lambda>t. (site_of (requests sh ! i), strftime_month t)) (?stamps ! i))"
      by (rule ext) (simp add: group_key_def split: option.splits)
    ultimately show ?thesis
      by (simp only: map_filter_map keys_def)
  qed
  have G: "groupby_size df1 ''Kitchen'' ''Month''
      = Inr (map (\<lambda>g. (fst g, snd g, count_list keys g)) (sort (remdups keys)))"
    by (simp only: groupby_size_def K M sum.case nt if_False Let_def keys_eq)
  have nlt: "\<not> length (get_all_values sh) < 2"
    using len by (simp add: length_get_all_values)
  show ?thesis
    unfolding dashboard_def Let_def
    by (simp only: nlt if_False fr1 sum.case fr2 fr3 df_def [symmetric]
        dashboard_option.case fr9 dt_stamp_cells mcells_def [symmetric] df1_def [symmetric] G)
qed


lemma upt_0_2: "[0..<2] = [0, Suc 0]"
  by (simp add: upt_rec)




end
